theory Spec2Isabelle
  imports Main "HOL-Library.Word" "HOL-Library.Code_Target_Numeral"
begin

section \<open>Errors\<close>

text \<open>
  The exceptions that the modelled functions of \<^verbatim>\<open>Fruit_day.py\<close> can meet.
  \<^verbatim>\<open>OverflowError\<close> comes from \<^verbatim>\<open>datetime\<close> (a \<^verbatim>\<open>timedelta\<close> of more than 999999999
  days, a date outside 0001-01-01 .. 9999-12-31), \<^verbatim>\<open>ValueError\<close> from \<^verbatim>\<open>int()\<close> and from
  integer formatting, \<^verbatim>\<open>AttributeError\<close> from calling \<^verbatim>\<open>.split\<close> or \<^verbatim>\<open>.get\<close> on a value that
  has no such method, \<^verbatim>\<open>KeyError\<close> from \<^verbatim>\<open>d[k]\<close> on a dict without the key \<^verbatim>\<open>k\<close>.
\<close>

datatype py_error = OverflowError | ValueError | AttributeError | KeyError

section \<open>The window planner: \<^verbatim>\<open>period_windows\<close>\<close>

text \<open>
  \<^verbatim>\<open>period_windows\<close> only compares dates, adds a \<^verbatim>\<open>timedelta\<close> of whole days to a
  date and takes the minimum of two dates. Python defines all three through the
  proleptic Gregorian ordinal of the date (\<^verbatim>\<open>date.toordinal()\<close>, with 0001-01-01 as day 1
  and 9999-12-31 as day 3652059), so here a \<^verbatim>\<open>dt.date\<close> is its ordinal.
\<close>

type_synonym ordinal = int

definition MINORDINAL :: ordinal where
  "MINORDINAL = 1"

definition MAXORDINAL :: ordinal where
  "MAXORDINAL = 3652059"

definition valid_ordinal :: "ordinal \<Rightarrow> bool" where
  "valid_ordinal d = (MINORDINAL \<le> d \<and> d \<le> MAXORDINAL)"

text \<open>\<^verbatim>\<open>dt.timedelta(days=n)\<close>: the constructor refuses more than 999999999 days.\<close>

definition timedelta :: "int \<Rightarrow> py_error + int" where
  "timedelta n = (if \<bar>n\<bar> \<le> 999999999 then Inr n else Inl OverflowError)"

text \<open>\<^verbatim>\<open>date + timedelta\<close>: the result has to be a date again.\<close>

definition date_add :: "ordinal \<Rightarrow> int \<Rightarrow> py_error + ordinal" where
  "date_add d n = (if valid_ordinal (d + n) then Inr (d + n) else Inl OverflowError)"

type_synonym window = "ordinal \<times> ordinal"

text \<open>
  The generator. A run of it is the list of the windows it yields, together with the
  exception that ended it, if one did; the value \<open>None\<close> is a run that never ends
  (the loop need not terminate: with \<^verbatim>\<open>days = 0\<close> the cursor does not move).
  \<^verbatim>\<open>
  def period_windows(start_d, end_d, days=SEGMENT_DAYS):
      cursor = start_d
      while cursor <= end_d:
          period_start = cursor
          period_end = min(end_d, cursor + dt.timedelta(days=days - 1))
          yield period_start, period_end
          cursor = period_end + dt.timedelta(days=1)
  \<close>
\<close>

partial_function (option) period_windows_loop ::
  "ordinal \<Rightarrow> ordinal \<Rightarrow> int \<Rightarrow> (window list \<times> py_error option) option" where
  "period_windows_loop cursor end_d days =
     (if cursor \<le> end_d then
        (case timedelta (days - 1) of
           Inl e \<Rightarrow> Some ([], Some e)
         | Inr td \<Rightarrow>
             (case date_add cursor td of
                Inl e \<Rightarrow> Some ([], Some e)
              | Inr reach \<Rightarrow>
                  (let period_start = cursor;
                       period_end = min end_d reach
                   in (case timedelta 1 of
                         Inl e \<Rightarrow> Some ([(period_start, period_end)], Some e)
                       | Inr one \<Rightarrow>
                           (case date_add period_end one of
                              Inl e \<Rightarrow> Some ([(period_start, period_end)], Some e)
                            | Inr cursor' \<Rightarrow>
                                Option.bind (period_windows_loop cursor' end_d days)
                                  (\<lambda>(ws, r). Some ((period_start, period_end) # ws, r)))))))
      else Some ([], None))"

declare period_windows_loop.simps [code]

definition SEGMENT_DAYS :: int where
  "SEGMENT_DAYS = 10"

definition period_windows ::
  "ordinal \<Rightarrow> ordinal \<Rightarrow> int \<Rightarrow> (window list \<times> py_error option) option" where
  "period_windows start_d end_d days = period_windows_loop start_d end_d days"

text \<open>
  \<^verbatim>\<open>list(period_windows(start_date, end_date, days=SEGMENT_DAYS))\<close>, as the main block
  calls it: the list of all windows, or the exception that the generator raised.
\<close>

definition period_list :: "ordinal \<Rightarrow> ordinal \<Rightarrow> int \<Rightarrow> (py_error + window list) option" where
  "period_list start_d end_d days =
     map_option (\<lambda>(ws, r). case r of None \<Rightarrow> Inr ws | Some e \<Rightarrow> Inl e)
       (period_windows start_d end_d days)"

section \<open>Python values\<close>

subsection \<open>Strings\<close>

text \<open>
  A Python \<^verbatim>\<open>str\<close> is a sequence of Unicode code points, and \<^verbatim>\<open>split\<close>, \<^verbatim>\<open>strip\<close> and
  \<^verbatim>\<open>int\<close> work on code points; so a string is the list of its code points. An ASCII
  literal of the source is written \<open>ascii ''...''\<close>.
\<close>

type_synonym pystr = "nat list"

definition ascii :: "string \<Rightarrow> pystr" where
  "ascii s = map of_char s"

subsection \<open>The interpreter\<close>

text \<open>
  Two things that \<^verbatim>\<open>int()\<close> and integer formatting depend on belong to the interpreter
  and not to the repository: the decimal digits of the Unicode database beyond ASCII
  (\<^verbatim>\<open>int\<close> of the full-width digits U+FF11 U+FF10 U+FF19 is 109), and the limit on the
  number of digits of an integer converted from or to a string
  (\<^verbatim>\<open>sys.get_int_max_str_digits()\<close>: 4300 by default since Python 3.11, 0 for no limit).
  Both are parameters of the model.
\<close>

record py_runtime =
  decimal :: "nat \<Rightarrow> nat option"
  int_max_str_digits :: nat

subsection \<open>JSON values\<close>

text \<open>
  What \<^verbatim>\<open>r.json()\<close> returns: \<^verbatim>\<open>None\<close>, a \<^verbatim>\<open>bool\<close>, an \<^verbatim>\<open>int\<close>, a \<^verbatim>\<open>float\<close> (its
  IEEE 754 binary64 bit pattern), a \<^verbatim>\<open>str\<close>, a \<^verbatim>\<open>list\<close> or a \<^verbatim>\<open>dict\<close> with string keys
  (its items in insertion order; a key occurs once, and a lookup takes the first item
  with the key).
\<close>

datatype json =
    JNull
  | JBool bool
  | JInt int
  | JFloat "64 word"
  | JStr pystr
  | JList "json list"
  | JDict "(pystr \<times> json) list"

type_synonym dict = "(pystr \<times> json) list"

text \<open>\<^verbatim>\<open>bool(x)\<close>, as \<^verbatim>\<open>not x\<close> uses it; a float is false when it is \<open>+0.0\<close> or \<open>-0.0\<close>.\<close>

fun truthy :: "json \<Rightarrow> bool" where
  "truthy JNull = False"
| "truthy (JBool b) = b"
| "truthy (JInt n) = (n \<noteq> 0)"
| "truthy (JFloat w) = (take_bit 63 w \<noteq> 0)"
| "truthy (JStr s) = (s \<noteq> [])"
| "truthy (JList xs) = (xs \<noteq> [])"
| "truthy (JDict kvs) = (kvs \<noteq> [])"

text \<open>\<^verbatim>\<open>k in d\<close> and \<^verbatim>\<open>d[k]\<close> are \<open>map_of d k\<close>; \<^verbatim>\<open>d.get(k, default)\<close>:\<close>

definition dict_get :: "dict \<Rightarrow> pystr \<Rightarrow> json \<Rightarrow> json" where
  "dict_get d k dflt = (case map_of d k of Some v \<Rightarrow> v | None \<Rightarrow> dflt)"

text \<open>\<^verbatim>\<open>d[k] = v\<close>: an existing key keeps its place, a new key goes to the end.\<close>

fun dict_set :: "pystr \<Rightarrow> json \<Rightarrow> dict \<Rightarrow> dict" where
  "dict_set k v [] = [(k, v)]"
| "dict_set k v ((k', v') # kvs) =
     (if k' = k then (k, v) # kvs else (k', v') # dict_set k v kvs)"

section \<open>String operations of the standard library\<close>

text \<open>\<^verbatim>\<open>s.split(sep)\<close> for a separator of one character: empty pieces are kept.\<close>

fun split_on :: "nat \<Rightarrow> pystr \<Rightarrow> pystr list" where
  "split_on sep [] = [[]]"
| "split_on sep (c # cs) =
     (if c = sep then [] # split_on sep cs
      else (case split_on sep cs of [] \<Rightarrow> [[c]] | p # ps \<Rightarrow> (c # p) # ps))"

text \<open>
  \<^verbatim>\<open>str.isspace\<close> of one character, which \<^verbatim>\<open>s.strip()\<close> uses: the ASCII characters
  \<^verbatim>\<open>\t \n \v \f \r\<close>, \<^verbatim>\<open>\x1c\<close> to \<^verbatim>\<open>\x1f\<close> and the space, and the Unicode characters of
  bidirectional class WS, B or S or of category Zs.
\<close>

definition unicode_isspace :: "nat \<Rightarrow> bool" where
  "unicode_isspace c =
     ((9 \<le> c \<and> c \<le> 13) \<or> (28 \<le> c \<and> c \<le> 32) \<or> c = 0x85 \<or> c = 0xA0 \<or> c = 0x1680 \<or>
      (0x2000 \<le> c \<and> c \<le> 0x200A) \<or> c = 0x2028 \<or> c = 0x2029 \<or> c = 0x202F \<or>
      c = 0x205F \<or> c = 0x3000)"

definition strip :: "pystr \<Rightarrow> pystr" where
  "strip s = rev (dropWhile unicode_isspace (rev (dropWhile unicode_isspace s)))"

text \<open>
  \<^verbatim>\<open>int(s)\<close> for a string. CPython keeps the characters below 127, turns every other
  character into a space when it is Unicode white space, into its ASCII digit when it
  is a Unicode decimal digit and into \<^verbatim>\<open>?\<close> otherwise, and then reads: white space in
  the sense of C (\<^verbatim>\<open>\t \n \v \f \r\<close> and the space), an optional sign, digits with single
  underscores between them, white space. Anything else is a \<^verbatim>\<open>ValueError\<close>, and so are
  more digits than the limit when there are more than 640 of them.
\<close>

definition int_space :: "nat \<Rightarrow> bool" where
  "int_space c = (if c < 127 then (9 \<le> c \<and> c \<le> 13) \<or> c = 32 else unicode_isspace c)"

definition int_digit :: "py_runtime \<Rightarrow> nat \<Rightarrow> nat option" where
  "int_digit rt c =
     (if c < 127 then (if 48 \<le> c \<and> c \<le> 57 then Some (c - 48) else None)
      else if unicode_isspace c then None
      else decimal rt c)"

fun int_digits :: "py_runtime \<Rightarrow> pystr \<Rightarrow> nat list option" where
  "int_digits rt [] = None"
| "int_digits rt [c] = map_option (\<lambda>d. [d]) (int_digit rt c)"
| "int_digits rt (c # c' # cs) =
     (case int_digit rt c of
        None \<Rightarrow> None
      | Some d \<Rightarrow>
          map_option ((#) d) (if c' = 95 then int_digits rt cs else int_digits rt (c' # cs)))"

definition digits_allowed :: "py_runtime \<Rightarrow> nat \<Rightarrow> bool" where
  "digits_allowed rt n =
     (\<not> (640 < n \<and> 0 < int_max_str_digits rt \<and> int_max_str_digits rt < n))"

definition py_int :: "py_runtime \<Rightarrow> pystr \<Rightarrow> py_error + int" where
  "py_int rt s =
     (let t = dropWhile int_space s;
          (negative, u) = (case t of
                             c # cs \<Rightarrow> if c = 45 then (True, cs)
                                       else if c = 43 then (False, cs) else (False, t)
                           | [] \<Rightarrow> (False, t));
          body = rev (dropWhile int_space (rev u))
      in case int_digits rt body of
           None \<Rightarrow> Inl ValueError
         | Some ds \<Rightarrow>
             if digits_allowed rt (length ds)
             then (let n = foldl (\<lambda>a d. 10 * a + int d) 0 ds
                   in Inr (if negative then - n else n))
             else Inl ValueError)"

text \<open>
  The decimal digits of a natural number, and \<^verbatim>\<open>f"{n:0Wd}"\<close>: the sign, then zeros up
  to the width \<open>W\<close>, then the digits. The conversion refuses a number of more digits
  than the limit, again only beyond 640 digits.
\<close>

fun digits10 :: "nat \<Rightarrow> nat list" where
  "digits10 n = (if n < 10 then [n] else digits10 (n div 10) @ [n mod 10])"

declare digits10.simps [simp del]

definition fmt_0d :: "nat \<Rightarrow> int \<Rightarrow> pystr" where
  "fmt_0d width n =
     (let ds = map (\<lambda>d. 48 + d) (digits10 (nat \<bar>n\<bar>));
          sign = (if n < 0 then [45] else [])
      in sign @ replicate (width - length sign - length ds) 48 @ ds)"

definition format_0d :: "py_runtime \<Rightarrow> nat \<Rightarrow> int \<Rightarrow> py_error + pystr" where
  "format_0d rt width n =
     (if digits_allowed rt (length (digits10 (nat \<bar>n\<bar>))) then Inr (fmt_0d width n)
      else Inl ValueError)"

section \<open>Calendar conversion: \<^verbatim>\<open>to_roc\<close> and \<^verbatim>\<open>roc_to_western\<close>\<close>

text \<open>
  \<^verbatim>\<open>to_roc\<close> reads the fields \<^verbatim>\<open>year\<close>, \<^verbatim>\<open>month\<close> and \<^verbatim>\<open>day\<close> of a \<^verbatim>\<open>dt.date\<close>. A date has
  a year from 1 to 9999, a month from 1 to 12 and a day of that month.
\<close>

record date =
  year :: int
  month :: int
  day :: int

definition is_leap :: "int \<Rightarrow> bool" where
  "is_leap y = (y mod 4 = 0 \<and> (y mod 100 \<noteq> 0 \<or> y mod 400 = 0))"

definition days_in_month :: "int \<Rightarrow> int \<Rightarrow> int" where
  "days_in_month y m =
     (if m = 2 then (if is_leap y then 29 else 28)
      else if m = 4 \<or> m = 6 \<or> m = 9 \<or> m = 11 then 30 else 31)"

definition valid_date :: "date \<Rightarrow> bool" where
  "valid_date d =
     (1 \<le> year d \<and> year d \<le> 9999 \<and> 1 \<le> month d \<and> month d \<le> 12 \<and>
      1 \<le> day d \<and> day d \<le> days_in_month (year d) (month d))"

text \<open>
  \<^verbatim>\<open>
  def to_roc(date_obj, use_roc=True):
      if use_roc:
          year = date_obj.year - 1911
      else:
          year = date_obj.year
      return f"{year:03d}.{date_obj.month:02d}.{date_obj.day:02d}"
  \<close>
  The fields of a date have at most four digits, so the limit on digits plays no part.
\<close>

definition to_roc :: "date \<Rightarrow> bool \<Rightarrow> pystr" where
  "to_roc date_obj use_roc =
     (let y = (if use_roc then year date_obj - 1911 else year date_obj)
      in fmt_0d 3 y @ ascii ''.'' @ fmt_0d 2 (month date_obj) @ ascii ''.'' @
         fmt_0d 2 (day date_obj))"

text \<open>
  \<^verbatim>\<open>
  def roc_to_western(date_str):
      if not date_str:
          return ""
      try:
          parts = date_str.split(".")
          if len(parts) != 3:
              return date_str
          roc_year = int(parts[0])
          western_year = roc_year + 1911
          return f"{western_year:04d}.{int(parts[1]):02d}.{int(parts[2]):02d}"
      except Exception:
          return date_str
  \<close>
  The argument is whatever the record holds. \<open>roc_to_western_try\<close> is the body of the
  \<^verbatim>\<open>try\<close>: only a string has \<^verbatim>\<open>split\<close>, and the replacement fields of the f-string are
  evaluated and formatted from left to right.
\<close>

definition roc_to_western_try :: "py_runtime \<Rightarrow> json \<Rightarrow> py_error + json" where
  "roc_to_western_try rt date_str =
     (case date_str of
        JStr s \<Rightarrow>
          (case split_on 46 s of
             [p0, p1, p2] \<Rightarrow>
               (case py_int rt p0 of
                  Inl e \<Rightarrow> Inl e
                | Inr roc_year \<Rightarrow>
                    (let western_year = roc_year + 1911
                     in case format_0d rt 4 western_year of
                          Inl e \<Rightarrow> Inl e
                        | Inr y \<Rightarrow>
                            (case py_int rt p1 of
                               Inl e \<Rightarrow> Inl e
                             | Inr m \<Rightarrow>
                                 (case format_0d rt 2 m of
                                    Inl e \<Rightarrow> Inl e
                                  | Inr mm \<Rightarrow>
                                      (case py_int rt p2 of
                                         Inl e \<Rightarrow> Inl e
                                       | Inr d \<Rightarrow>
                                           (case format_0d rt 2 d of
                                              Inl e \<Rightarrow> Inl e
                                            | Inr dd \<Rightarrow>
                                                Inr (JStr (y @ ascii ''.'' @ mm @
                                                           ascii ''.'' @ dd))))))))
           | _ \<Rightarrow> Inr date_str)
      | _ \<Rightarrow> Inl AttributeError)"

definition roc_to_western :: "py_runtime \<Rightarrow> json \<Rightarrow> json" where
  "roc_to_western rt date_str =
     (if \<not> truthy date_str then JStr []
      else (case roc_to_western_try rt date_str of
              Inr v \<Rightarrow> v
            | Inl e \<Rightarrow> date_str))"

section \<open>The record normalizer: \<^verbatim>\<open>normalize_record\<close>\<close>

text \<open>
  The Chinese field names of the source, as code points: transaction date
  (U+4EA4 U+6613 U+65E5 U+671F), category code, crop code, crop name, market code,
  market name, upper price, middle price, lower price, average price and transaction
  volume.
\<close>

definition zh_trans_date :: pystr where
  "zh_trans_date = [0x4EA4, 0x6613, 0x65E5, 0x671F]"

definition zh_category_code :: pystr where
  "zh_category_code = [0x7A2E, 0x985E, 0x4EE3, 0x78BC]"

definition zh_crop_code :: pystr where
  "zh_crop_code = [0x4F5C, 0x7269, 0x4EE3, 0x865F]"

definition zh_crop_name :: pystr where
  "zh_crop_name = [0x4F5C, 0x7269, 0x540D, 0x7A31]"

definition zh_market_code :: pystr where
  "zh_market_code = [0x5E02, 0x5834, 0x4EE3, 0x865F]"

definition zh_market_name :: pystr where
  "zh_market_name = [0x5E02, 0x5834, 0x540D, 0x7A31]"

definition zh_upper_price :: pystr where
  "zh_upper_price = [0x4E0A, 0x50F9]"

definition zh_middle_price :: pystr where
  "zh_middle_price = [0x4E2D, 0x50F9]"

definition zh_lower_price :: pystr where
  "zh_lower_price = [0x4E0B, 0x50F9]"

definition zh_average_price :: pystr where
  "zh_average_price = [0x5E73, 0x5747, 0x50F9]"

definition zh_trans_volume :: pystr where
  "zh_trans_volume = [0x4EA4, 0x6613, 0x91CF]"

definition OUTPUT_FIELDS :: "pystr list" where
  "OUTPUT_FIELDS =
     [zh_trans_date, zh_category_code, zh_crop_code, zh_crop_name,
      zh_market_code, zh_market_name, zh_upper_price, zh_middle_price, zh_lower_price,
      zh_average_price, zh_trans_volume]"

text \<open>
  \<^verbatim>\<open>
  def pick(*candidates):
      for c in candidates:
          if c in rec and rec[c] not in (None, ""):
              return rec[c]
      return ""
  \<close>
\<close>

fun pick :: "dict \<Rightarrow> pystr list \<Rightarrow> json" where
  "pick rec [] = JStr []"
| "pick rec (c # candidates) =
     (case map_of rec c of
        Some v \<Rightarrow> if v \<noteq> JNull \<and> v \<noteq> JStr [] then v else pick rec candidates
      | None \<Rightarrow> pick rec candidates)"

text \<open>
  \<^verbatim>\<open>
  def normalize_record(rec):
      d = { "<trans date>": pick("TransDate", "<trans date>"), ... }
      d["<trans date>"] = roc_to_western(d["<trans date>"])
      return d
  \<close>
\<close>

definition normalize_record :: "py_runtime \<Rightarrow> dict \<Rightarrow> py_error + dict" where
  "normalize_record rt rec =
     (let d = [(zh_trans_date, pick rec [ascii ''TransDate'', zh_trans_date]),
               (zh_category_code, pick rec [ascii ''CategoryCode'', zh_category_code]),
               (zh_crop_code, pick rec [ascii ''CropCode'', zh_crop_code]),
               (zh_crop_name, pick rec [ascii ''CropName'', zh_crop_name]),
               (zh_market_code, pick rec [ascii ''MarketCode'', zh_market_code]),
               (zh_market_name, pick rec [ascii ''MarketName'', zh_market_name]),
               (zh_upper_price, pick rec [ascii ''UpperPrice'', zh_upper_price]),
               (zh_middle_price, pick rec [ascii ''MiddlePrice'', zh_middle_price]),
               (zh_lower_price, pick rec [ascii ''LowerPrice'', zh_lower_price]),
               (zh_average_price, pick rec [ascii ''AveragePrice'', zh_average_price]),
               (zh_trans_volume, pick rec [ascii ''TransVolume'', zh_trans_volume])]
      in case map_of d zh_trans_date of
           None \<Rightarrow> Inl KeyError
         | Some v \<Rightarrow> Inr (dict_set zh_trans_date (roc_to_western rt v) d))"

section \<open>The paged fetcher: \<^verbatim>\<open>get_json\<close> and \<^verbatim>\<open>fetch_period_block\<close>\<close>

subsection \<open>The upstream and the effects\<close>

text \<open>
  The query parameters that \<^verbatim>\<open>fetch_period_block\<close> sends: \<^verbatim>\<open>StartDate\<close>, \<^verbatim>\<open>EndDate\<close>,
  \<^verbatim>\<open>$top\<close>, \<^verbatim>\<open>$skip\<close> and \<^verbatim>\<open>TcType\<close>.
\<close>

record params =
  StartDate :: pystr
  EndDate :: pystr
  top :: int
  skip :: int
  TcType :: pystr

text \<open>
  One attempt is \<^verbatim>\<open>session.get\<close>, \<^verbatim>\<open>r.raise_for_status()\<close> and \<^verbatim>\<open>r.json()\<close>: it ends in an
  exception (no connection, a timeout, an error status, a body that is not JSON) or in
  the decoded body. The upstream decides the outcome of the \<open>k\<close>-th attempt of the run
  from the URL and the parameters.
\<close>

datatype outcome = Failed | Returned json

type_synonym upstream = "nat \<Rightarrow> pystr \<Rightarrow> params \<Rightarrow> outcome"

text \<open>
  The effects of a run: how many attempts were made, what was sent with each of them,
  and the arguments of the calls of \<^verbatim>\<open>time.sleep\<close>, in order. The \<^verbatim>\<open>print\<close> calls are
  not modelled.
\<close>

record world =
  attempts :: nat
  sent :: "(pystr \<times> params) list"
  slept :: "int list"

definition FARM_TRANS_URL :: pystr where
  "FARM_TRANS_URL = ascii ''https://data.moa.gov.tw/Service/OpenData/FromM/FarmTransData.aspx''"

definition USE_ROC :: bool where
  "USE_ROC = True"

definition RETRY_DELAY_BASE :: int where
  "RETRY_DELAY_BASE = 1"

subsection \<open>\<^verbatim>\<open>get_json\<close>\<close>

text \<open>
  \<^verbatim>\<open>
  def get_json(url, params=None, max_retry=5, timeout=40):
      for i in range(max_retry):
          try:
              r = session.get(url, params=params, timeout=timeout)
              r.raise_for_status()
              return r.json()
          except Exception as e:
              print(...)
              time.sleep(RETRY_DELAY_BASE * (i + 1))
      print(...)
      return []
  \<close>
  \<open>get_json_from\<close> is the loop from the index \<open>i\<close> on.
\<close>

function get_json_from ::
  "upstream \<Rightarrow> pystr \<Rightarrow> params \<Rightarrow> nat \<Rightarrow> nat \<Rightarrow> world \<Rightarrow> json \<times> world" where
  "get_json_from up url ps max_retry i w =
     (if i < max_retry then
        (let w' = w\<lparr>attempts := Suc (attempts w), sent := sent w @ [(url, ps)]\<rparr>
         in case up (attempts w) url ps of
              Returned v \<Rightarrow> (v, w')
            | Failed \<Rightarrow>
                get_json_from up url ps max_retry (Suc i)
                  (w'\<lparr>slept := slept w' @ [RETRY_DELAY_BASE * (int i + 1)]\<rparr>))
      else (JList [], w))"
  by pat_completeness auto
termination
  by (relation "measure (\<lambda>(up, url, ps, max_retry, i, w). max_retry - i)") auto

definition get_json :: "upstream \<Rightarrow> pystr \<Rightarrow> params \<Rightarrow> nat \<Rightarrow> world \<Rightarrow> json \<times> world" where
  "get_json up url ps max_retry w = get_json_from up url ps max_retry 0 w"

subsection \<open>\<^verbatim>\<open>fetch_period_block\<close>\<close>

text \<open>
  The category test of the inner loop,
  \<^verbatim>\<open>str(rec.get("CategoryCode", rec.get("<category code>", ""))).strip() == "N05"\<close>.
  \<^verbatim>\<open>str\<close> of a string is the string. \<^verbatim>\<open>str\<close> of any other JSON value is \<^verbatim>\<open>None\<close>, \<^verbatim>\<open>True\<close>,
  \<^verbatim>\<open>False\<close>, a numeral, or a text that starts with a bracket or a brace: it has no white
  space at its ends, and it is not \<^verbatim>\<open>N05\<close>.
\<close>

definition is_N05 :: "json \<Rightarrow> bool" where
  "is_N05 v = (case v of JStr s \<Rightarrow> strip s = ascii ''N05'' | _ \<Rightarrow> False)"

text \<open>
  \<^verbatim>\<open>
  for rec in data:
      category_code = str(rec.get("CategoryCode", rec.get("<category code>", ""))).strip()
      if category_code == "N05":
          all_rows.append(normalize_record(rec))
          matched += 1
  \<close>
  Only a dict has \<^verbatim>\<open>get\<close>. An exception leaves the function, and the rows are lost.
\<close>

fun keep_matching :: "py_runtime \<Rightarrow> json list \<Rightarrow> dict list \<Rightarrow> py_error + dict list" where
  "keep_matching rt [] all_rows = Inr all_rows"
| "keep_matching rt (r # data) all_rows =
     (case r of
        JDict rec \<Rightarrow>
          (if is_N05 (dict_get rec (ascii ''CategoryCode'')
                        (dict_get rec zh_category_code (JStr [])))
           then (case normalize_record rt rec of
                   Inl e \<Rightarrow> Inl e
                 | Inr row \<Rightarrow> keep_matching rt data (all_rows @ [row]))
           else keep_matching rt data all_rows)
      | _ \<Rightarrow> Inl AttributeError)"

text \<open>
  \<^verbatim>\<open>
  def fetch_period_block(period_start, period_end, page_top=2000):
      all_rows = []
      skip = 0
      while True:
          params = {"StartDate": to_roc(period_start, USE_ROC),
                    "EndDate": to_roc(period_end, USE_ROC),
                    "$top": page_top, "$skip": skip, "TcType": "N05"}
          data = get_json(FARM_TRANS_URL, params=params)
          if not isinstance(data, list) or not data:
              break
          (the inner loop)
          if len(data) < page_top:
              break
          skip += page_top
      return all_rows
  \<close>
  The loop has no bound: the value \<open>None\<close> is a run that never ends. \<open>page_params\<close>
  is the dict \<^verbatim>\<open>params\<close> of one iteration.
\<close>

definition page_params :: "date \<Rightarrow> date \<Rightarrow> int \<Rightarrow> int \<Rightarrow> params" where
  "page_params period_start period_end page_top skp =
     \<lparr>StartDate = to_roc period_start USE_ROC, EndDate = to_roc period_end USE_ROC,
      top = page_top, skip = skp, TcType = ascii ''N05''\<rparr>"

partial_function (option) fetch_loop ::
  "py_runtime \<Rightarrow> upstream \<Rightarrow> date \<Rightarrow> date \<Rightarrow> int \<Rightarrow> int \<Rightarrow> dict list \<Rightarrow> world \<Rightarrow>
     ((py_error + dict list) \<times> world) option" where
  "fetch_loop rt up period_start period_end page_top skp all_rows w =
     (case get_json up FARM_TRANS_URL (page_params period_start period_end page_top skp) 5 w of
        (data, w') \<Rightarrow>
          (case data of
             JList recs \<Rightarrow>
               (if recs = [] then Some (Inr all_rows, w')
                else (case keep_matching rt recs all_rows of
                        Inl e \<Rightarrow> Some (Inl e, w')
                      | Inr all_rows' \<Rightarrow>
                          (if int (length recs) < page_top then Some (Inr all_rows', w')
                           else fetch_loop rt up period_start period_end page_top
                                  (skp + page_top) all_rows' w')))
           | _ \<Rightarrow> Some (Inr all_rows, w')))"

declare fetch_loop.simps [code]

definition fetch_period_block ::
  "py_runtime \<Rightarrow> upstream \<Rightarrow> date \<Rightarrow> date \<Rightarrow> int \<Rightarrow> world \<Rightarrow>
     ((py_error + dict list) \<times> world) option" where
  "fetch_period_block rt up period_start period_end page_top w =
     fetch_loop rt up period_start period_end page_top 0 [] w"

section \<open>Notions of the specification\<close>

text \<open>
  Windows are contiguous when each one starts on the day after the one before it ends.
\<close>

fun contiguous :: "window list \<Rightarrow> bool" where
  "contiguous [] = True"
| "contiguous [w] = True"
| "contiguous (w # v # ws) = (fst v = snd w + 1 \<and> contiguous (v # ws))"

text \<open>
  A response is a full page when it is a list of at least \<open>page_top\<close> records and not
  empty; \<open>records_of\<close> are the records of a response, none when it is not a list.
\<close>

definition full_page :: "int \<Rightarrow> json \<Rightarrow> bool" where
  "full_page page_top v =
     (case v of JList recs \<Rightarrow> recs \<noteq> [] \<and> page_top \<le> int (length recs) | _ \<Rightarrow> False)"

definition records_of :: "json \<Rightarrow> json list" where
  "records_of v = (case v of JList recs \<Rightarrow> recs | _ \<Rightarrow> [])"

text \<open>
  The pages of one window, with the retries that \<^verbatim>\<open>get_json\<close> makes for each of them:
  \<open>world_at n\<close> is the world after the fetches of the pages \<open>0\<close>, ..., \<open>n - 1\<close>, where the
  page of index \<open>i\<close> is asked with \<open>$skip = i * page_top\<close>; \<open>page_at n\<close> is what the fetch of
  the page \<open>n\<close> returns then, and \<open>tries n\<close> the number of attempts it takes.
\<close>

fun world_at :: "upstream \<Rightarrow> date \<Rightarrow> date \<Rightarrow> int \<Rightarrow> nat \<Rightarrow> world \<Rightarrow> world" where
  "world_at up ps pe page_top 0 w = w"
| "world_at up ps pe page_top (Suc n) w =
     snd (get_json up FARM_TRANS_URL (page_params ps pe page_top (int n * page_top)) 5
            (world_at up ps pe page_top n w))"

definition page_at :: "upstream \<Rightarrow> date \<Rightarrow> date \<Rightarrow> int \<Rightarrow> nat \<Rightarrow> world \<Rightarrow> json" where
  "page_at up ps pe page_top n w =
     fst (get_json up FARM_TRANS_URL (page_params ps pe page_top (int n * page_top)) 5
            (world_at up ps pe page_top n w))"

definition tries :: "upstream \<Rightarrow> date \<Rightarrow> date \<Rightarrow> int \<Rightarrow> nat \<Rightarrow> world \<Rightarrow> nat" where
  "tries up ps pe page_top n w =
     attempts (world_at up ps pe page_top (Suc n) w) - attempts (world_at up ps pe page_top n w)"

text \<open>The value that the category test of \<^verbatim>\<open>fetch_period_block\<close> reads from a record.\<close>

definition category_of :: "dict \<Rightarrow> json" where
  "category_of rec = dict_get rec (ascii ''CategoryCode'') (dict_get rec zh_category_code (JStr []))"

text \<open>
  The first value among the candidates that is present in the record and is neither
  \<^verbatim>\<open>None\<close> nor the empty string; the empty string when there is none.
\<close>

definition present_nonempty :: "dict \<Rightarrow> pystr \<Rightarrow> bool" where
  "present_nonempty rec c =
     (case map_of rec c of Some v \<Rightarrow> v \<noteq> JNull \<and> v \<noteq> JStr [] | None \<Rightarrow> False)"

definition first_present :: "dict \<Rightarrow> pystr list \<Rightarrow> json" where
  "first_present rec candidates =
     (case filter (present_nonempty rec) candidates of
        [] \<Rightarrow> JStr []
      | c # cs \<Rightarrow> dict_get rec c (JStr []))"

text \<open>The output fields with their source names, in the order of probing.\<close>

definition source_names :: "(pystr \<times> pystr list) list" where
  "source_names =
     [(zh_trans_date, [ascii ''TransDate'', zh_trans_date]),
      (zh_category_code, [ascii ''CategoryCode'', zh_category_code]),
      (zh_crop_code, [ascii ''CropCode'', zh_crop_code]),
      (zh_crop_name, [ascii ''CropName'', zh_crop_name]),
      (zh_market_code, [ascii ''MarketCode'', zh_market_code]),
      (zh_market_name, [ascii ''MarketName'', zh_market_name]),
      (zh_upper_price, [ascii ''UpperPrice'', zh_upper_price]),
      (zh_middle_price, [ascii ''MiddlePrice'', zh_middle_price]),
      (zh_lower_price, [ascii ''LowerPrice'', zh_lower_price]),
      (zh_average_price, [ascii ''AveragePrice'', zh_average_price]),
      (zh_trans_volume, [ascii ''TransVolume'', zh_trans_volume])]"

section \<open>Sample inputs\<close>

text \<open>
  An interpreter with the default limit of 4300 digits and no decimal digits beyond
  ASCII, the world before the first request, the first day of 2020, and a record of
  category N05 with a date of the year 109.
\<close>

definition sample_runtime :: py_runtime where
  "sample_runtime = \<lparr>decimal = (\<lambda>c. None), int_max_str_digits = 4300\<rparr>"

definition initial_world :: world where
  "initial_world = \<lparr>attempts = 0, sent = [], slept = []\<rparr>"

definition sample_day :: date where
  "sample_day = \<lparr>year = 2020, month = 1, day = 1\<rparr>"

definition sample_record :: dict where
  "sample_record =
     [(ascii ''TransDate'', JStr (ascii ''109.01.01'')),
      (ascii ''CategoryCode'', JStr (ascii ''N05'')),
      (ascii ''CropCode'', JStr (ascii ''A1''))]"

text \<open>
  An upstream that answers the pages at \<open>$skip\<close> 0 and 2000 with 2000 records each and
  every other page with 500 records, and one that answers the page at \<open>$skip\<close> 0 with
  two records and fails on every other request.
\<close>

definition three_pages :: upstream where
  "three_pages k url ps =
     (if skip ps = 0 \<or> skip ps = 2000
      then Returned (JList (map JDict (replicate 2000 sample_record)))
      else Returned (JList (map JDict (replicate 500 sample_record))))"

definition one_page_then_down :: upstream where
  "one_page_then_down k url ps =
     (if skip ps = 0 then Returned (JList (map JDict [sample_record, sample_record]))
      else Failed)"

text \<open>A segment of a date string is numeric when \<^verbatim>\<open>int()\<close> accepts it.\<close>

definition numeric :: "py_runtime \<Rightarrow> pystr \<Rightarrow> bool" where
  "numeric rt s = (case py_int rt s of Inr n \<Rightarrow> True | Inl e \<Rightarrow> False)"

text \<open>A date in the standard calendar, written \<^verbatim>\<open>YYYY.MM.DD\<close>.\<close>

definition western_text :: "date \<Rightarrow> pystr" where
  "western_text d =
     fmt_0d 4 (year d) @ ascii ''.'' @ fmt_0d 2 (month d) @ ascii ''.'' @ fmt_0d 2 (day d)"

text \<open>The sample record normalized once, and normalized a second time.\<close>

definition sample_normalized :: dict where
  "sample_normalized =
     [(zh_trans_date, JStr (ascii ''2020.01.01'')),
      (zh_category_code, JStr (ascii ''N05'')),
      (zh_crop_code, JStr (ascii ''A1'')),
      (zh_crop_name, JStr []),
      (zh_market_code, JStr []),
      (zh_market_name, JStr []),
      (zh_upper_price, JStr []),
      (zh_middle_price, JStr []),
      (zh_lower_price, JStr []),
      (zh_average_price, JStr []),
      (zh_trans_volume, JStr [])]"

definition sample_renormalized :: dict where
  "sample_renormalized =
     [(zh_trans_date, JStr (ascii ''3931.01.01'')),
      (zh_category_code, JStr (ascii ''N05'')),
      (zh_crop_code, JStr (ascii ''A1'')),
      (zh_crop_name, JStr []),
      (zh_market_code, JStr []),
      (zh_market_name, JStr []),
      (zh_upper_price, JStr []),
      (zh_middle_price, JStr []),
      (zh_lower_price, JStr []),
      (zh_average_price, JStr []),
      (zh_trans_volume, JStr [])]"

text \<open>
  The same two upstreams behind a bad line: every attempt with an even number fails,
  so that each page takes a retry.
\<close>

definition flaky :: "upstream \<Rightarrow> upstream" where
  "flaky up k url ps = (if even k then Failed else up k url ps)"

section \<open>The window planner\<close>

lemma contiguous_nth:
  "contiguous ws \<Longrightarrow> Suc i < length ws \<Longrightarrow> fst (ws ! Suc i) = snd (ws ! i) + 1"
proof (induction ws arbitrary: i rule: contiguous.induct)
  case (3 w v ws)
  then show ?case by (cases i) auto
qed auto

lemma contiguous_ordered:
  assumes "contiguous ws" "\<forall>w\<in>set ws. fst w \<le> snd w" "i < j" "j < length ws"
  shows "snd (ws ! i) < fst (ws ! j)"
  using assms(3,4)
proof (induction j)
  case 0
  then show ?case by simp
next
  case (Suc j)
  have step: "fst (ws ! Suc j) = snd (ws ! j) + 1"
    using assms(1) Suc.prems(2) by (rule contiguous_nth)
  show ?case
  proof (cases "i = j")
    case True
    then show ?thesis using step by simp
  next
    case False
    then have "snd (ws ! i) < fst (ws ! j)" using Suc by simp
    moreover have "fst (ws ! j) \<le> snd (ws ! j)" using assms(2) Suc.prems(2) by simp
    ultimately show ?thesis using step by linarith
  qed
qed

lemma contiguous_cover:
  "ws \<noteq> [] \<Longrightarrow> contiguous ws \<Longrightarrow> \<forall>w\<in>set ws. fst w \<le> snd w \<Longrightarrow>
     fst (hd ws) \<le> snd (last ws) \<and>
     (\<Union>w\<in>set ws. {fst w..snd w}) = {fst (hd ws)..snd (last ws)}"
proof (induction ws rule: contiguous.induct)
  case 1
  then show ?case by simp
next
  case (2 w)
  then show ?case by simp
next
  case (3 w v ws)
  then have ih: "fst v \<le> snd (last (v # ws))"
      "(\<Union>x\<in>set (v # ws). {fst x..snd x}) = {fst v..snd (last (v # ws))}"
    by auto
  have link: "fst v = snd w + 1" "fst w \<le> snd w" using 3 by auto
  have "{fst w..snd w} \<union> {fst v..snd (last (v # ws))} = {fst w..snd (last (v # ws))}"
    using ih(1) link by auto
  then have "(\<Union>x\<in>set (w # v # ws). {fst x..snd x}) = {fst w..snd (last (v # ws))}"
    using ih(2) by simp
  moreover have "fst w \<le> snd (last (v # ws))" using ih(1) link by linarith
  ultimately show ?case by simp
qed

lemma period_windows_loop_partition:
  assumes "1 \<le> days" "end_d + days \<le> MAXORDINAL"
  shows "MINORDINAL \<le> cursor \<Longrightarrow> cursor \<le> end_d \<Longrightarrow>
    \<exists>ws. period_windows_loop cursor end_d days = Some (ws, None) \<and> ws \<noteq> [] \<and>
      fst (hd ws) = cursor \<and> snd (last ws) = end_d \<and> contiguous ws \<and>
      (\<forall>w\<in>set ws. fst w \<le> snd w \<and> snd w - fst w + 1 \<le> days) \<and>
      (\<forall>w\<in>set (butlast ws). snd w - fst w + 1 = days)"
proof (induction "nat (end_d - cursor)" arbitrary: cursor rule: less_induct)
  case less
  have td: "timedelta (days - 1) = Inr (days - 1)"
    using assms less.prems by (auto simp: timedelta_def MAXORDINAL_def MINORDINAL_def)
  have t1: "timedelta 1 = Inr 1" by (simp add: timedelta_def)
  have da: "date_add cursor (days - 1) = Inr (cursor + (days - 1))"
    using assms less.prems
    by (auto simp: date_add_def valid_ordinal_def MAXORDINAL_def MINORDINAL_def)
  let ?pe = "min end_d (cursor + (days - 1))"
  have pe: "cursor \<le> ?pe" "?pe \<le> end_d" using assms less.prems by auto
  have da2: "date_add ?pe 1 = Inr (?pe + 1)"
    using assms less.prems
    by (auto simp: date_add_def valid_ordinal_def MAXORDINAL_def MINORDINAL_def)
  show ?case
  proof (cases "?pe + 1 \<le> end_d")
    case False
    then have eq: "?pe = end_d" using pe by linarith
    have "period_windows_loop (?pe + 1) end_d days = Some ([], None)"
      using False by (subst period_windows_loop.simps) simp
    then have "period_windows_loop cursor end_d days = Some ([(cursor, ?pe)], None)"
      using less.prems td t1 da da2 by (subst period_windows_loop.simps) (simp add: Let_def)
    then show ?thesis using eq pe assms by auto
  next
    case True
    then have full: "?pe = cursor + (days - 1)" by linarith
    have "nat (end_d - (?pe + 1)) < nat (end_d - cursor)" using True pe by linarith
    moreover have "MINORDINAL \<le> ?pe + 1" using less.prems pe by linarith
    ultimately obtain ws where ws: "period_windows_loop (?pe + 1) end_d days = Some (ws, None)"
      "ws \<noteq> []" "fst (hd ws) = ?pe + 1" "snd (last ws) = end_d" "contiguous ws"
      "\<forall>w\<in>set ws. fst w \<le> snd w \<and> snd w - fst w + 1 \<le> days"
      "\<forall>w\<in>set (butlast ws). snd w - fst w + 1 = days"
      using less.hyps[of "?pe + 1"] True by blast
    have "period_windows_loop cursor end_d days = Some ((cursor, ?pe) # ws, None)"
      using less.prems td t1 da da2 ws(1)
      by (subst period_windows_loop.simps) (simp add: Let_def)
    moreover have "contiguous ((cursor, ?pe) # ws)" using ws(2,3,5) by (cases ws) auto
    moreover have "snd (last ((cursor, ?pe) # ws)) = end_d" using ws(2,4) by simp
    moreover have "\<forall>w\<in>set ((cursor, ?pe) # ws). fst w \<le> snd w \<and> snd w - fst w + 1 \<le> days"
      using ws(6) pe full by auto
    moreover have "\<forall>w\<in>set (butlast ((cursor, ?pe) # ws)). snd w - fst w + 1 = days"
      using ws(2,7) full by auto
    ultimately show ?thesis by auto
  qed
qed

text \<open>
  C1 (amended). For every start date, end date and segment length with
  \<open>start_d \<le> end_d\<close>, \<open>1 \<le> days\<close> and \<open>end_d + days\<close> not after 9999-12-31, the planner
  ends without an exception, and its windows are contiguous and do not overlap, cover
  exactly the days from \<open>start_d\<close> to \<open>end_d\<close>, and have at most \<open>days\<close> days each; all of
  them but the last have exactly \<open>days\<close> days.
\<close>

theorem period_windows_partition:
  assumes "MINORDINAL \<le> start_d" and "start_d \<le> end_d" and "1 \<le> days"
    and "end_d + days \<le> MAXORDINAL"
  shows "\<exists>ws. period_windows start_d end_d days = Some (ws, None) \<and> ws \<noteq> [] \<and>
      fst (hd ws) = start_d \<and> snd (last ws) = end_d \<and>
      (\<forall>i. Suc i < length ws \<longrightarrow> fst (ws ! Suc i) = snd (ws ! i) + 1) \<and>
      (\<forall>i j. i < j \<and> j < length ws \<longrightarrow> snd (ws ! i) < fst (ws ! j)) \<and>
      (\<Union>w\<in>set ws. {fst w..snd w}) = {start_d..end_d} \<and>
      (\<forall>w\<in>set ws. fst w \<le> snd w \<and> snd w - fst w + 1 \<le> days) \<and>
      (\<forall>w\<in>set (butlast ws). snd w - fst w + 1 = days)"
proof -
  obtain ws where ws: "period_windows_loop start_d end_d days = Some (ws, None)"
      "ws \<noteq> []" "fst (hd ws) = start_d" "snd (last ws) = end_d" "contiguous ws"
      "\<forall>w\<in>set ws. fst w \<le> snd w \<and> snd w - fst w + 1 \<le> days"
      "\<forall>w\<in>set (butlast ws). snd w - fst w + 1 = days"
    using period_windows_loop_partition[OF assms(3,4,1,2)] by blast
  have ord: "\<forall>w\<in>set ws. fst w \<le> snd w" using ws(6) by blast
  have "\<forall>i. Suc i < length ws \<longrightarrow> fst (ws ! Suc i) = snd (ws ! i) + 1"
    using contiguous_nth[OF ws(5)] by blast
  moreover have "\<forall>i j. i < j \<and> j < length ws \<longrightarrow> snd (ws ! i) < fst (ws ! j)"
    using contiguous_ordered[OF ws(5) ord] by blast
  moreover have "(\<Union>w\<in>set ws. {fst w..snd w}) = {start_d..end_d}"
    using contiguous_cover[OF ws(2,5) ord] ws(3,4) by simp
  ultimately show ?thesis
    using ws unfolding period_windows_def by blast
qed

theorem period_windows_partition_witness:
  "MINORDINAL \<le> 737425 \<and> (737425::int) \<le> 739616 \<and> (1::int) \<le> 10 \<and>
   739616 + 10 \<le> MAXORDINAL \<and>
   (\<exists>ws. period_windows 737425 739616 10 = Some (ws, None) \<and> ws \<noteq> [] \<and>
      fst (hd ws) = 737425 \<and> snd (last ws) = 739616 \<and>
      (\<forall>i. Suc i < length ws \<longrightarrow> fst (ws ! Suc i) = snd (ws ! i) + 1) \<and>
      (\<forall>i j. i < j \<and> j < length ws \<longrightarrow> snd (ws ! i) < fst (ws ! j)) \<and>
      (\<Union>w\<in>set ws. {fst w..snd w}) = {737425..739616} \<and>
      (\<forall>w\<in>set ws. fst w \<le> snd w \<and> snd w - fst w + 1 \<le> 10) \<and>
      (\<forall>w\<in>set (butlast ws). snd w - fst w + 1 = 10))"
proof -
  have h: "MINORDINAL \<le> 737425" "(737425::int) \<le> 739616" "(1::int) \<le> 10"
    "739616 + 10 \<le> MAXORDINAL"
    by (simp_all add: MINORDINAL_def MAXORDINAL_def)
  show ?thesis
    using h period_windows_partition[OF h] by blast
qed

text \<open>
  The claim as it is written fails at the end of the calendar: for the seven days from
  9999-12-25 to 9999-12-31 in segments of ten days, \<^verbatim>\<open>cursor + timedelta(9)\<close> is no date,
  and the planner raises \<^verbatim>\<open>OverflowError\<close> before it yields a window.
\<close>

theorem period_windows_overflow_counterexample:
  "MINORDINAL \<le> 3652053 \<and> (3652053::int) \<le> 3652059 \<and> 3652059 \<le> MAXORDINAL \<and> (1::int) \<le> 10 \<and>
   period_windows 3652053 3652059 10 = Some ([], Some OverflowError)"
  unfolding period_windows_def
  by (subst period_windows_loop.simps)
     (simp add: timedelta_def date_add_def valid_ordinal_def MINORDINAL_def MAXORDINAL_def)

text \<open>
  C2 (amended). The planner checks neither of its arguments and raises no
  \<^verbatim>\<open>InvalidRangeError\<close>: when the start date is after the end date, it yields no window
  and ends without an exception, whatever the segment length is.
\<close>

theorem period_windows_start_after_end:
  "end_d < start_d \<Longrightarrow> period_windows start_d end_d days = Some ([], None)"
  unfolding period_windows_def by (subst period_windows_loop.simps) simp

theorem period_windows_start_after_end_witness:
  "(737425::int) < 737426 \<and> period_windows 737426 737425 10 = Some ([], None)"
  using period_windows_start_after_end[of 737425 737426 10] by simp

text \<open>
  The claim as it is written fails: with the start date 2020-01-02 after the end date
  2020-01-01 the planner ends normally with no window, for the segment length 10 and
  also for the segment length 0, which is below 1.
\<close>

theorem period_windows_no_range_error_counterexample:
  "(737425::int) < 737426 \<and> period_list 737426 737425 10 = Some (Inr []) \<and>
   (0::int) < 1 \<and> period_list 737426 737425 0 = Some (Inr [])"
  unfolding period_list_def period_windows_def
  by (simp add: period_windows_loop.simps[of 737426 737425])

section \<open>Calendar conversion\<close>

lemma digits10_digit: "d \<in> set (digits10 n) \<Longrightarrow> d < 10"
proof (induction n rule: digits10.induct)
  case (1 n)
  then show ?case
    by (subst (asm) digits10.simps) (auto split: if_splits)
qed

lemma digits10_nonempty: "digits10 n \<noteq> []"
  by (subst digits10.simps) simp

lemma digits10_value: "foldl (\<lambda>a d. 10 * a + int d) 0 (digits10 n) = int n"
proof (induction n rule: digits10.induct)
  case (1 n)
  show ?case
  proof (cases "n < 10")
    case True
    then show ?thesis by (subst digits10.simps) simp
  next
    case False
    then have "foldl (\<lambda>a d. 10 * a + int d) 0 (digits10 (n div 10)) = int (n div 10)"
      using 1 by simp
    then have "foldl (\<lambda>a d. 10 * a + int d) 0 (digits10 (n div 10) @ [n mod 10]) = int n"
      by (simp add: zdiv_int zmod_int)
    then show ?thesis using False by (subst digits10.simps) simp
  qed
qed

lemma digits10_length: "n < 10 ^ k \<Longrightarrow> 0 < k \<Longrightarrow> length (digits10 n) \<le> k"
proof (induction n arbitrary: k rule: digits10.induct)
  case (1 n)
  show ?case
  proof (cases "n < 10")
    case True
    then show ?thesis using "1.prems" by (subst digits10.simps) simp
  next
    case False
    obtain k' where k: "k = Suc k'" using "1.prems"(2) by (cases k) auto
    have "n div 10 < 10 ^ k'" using "1.prems"(1) k by (simp add: less_mult_imp_div_less mult.commute)
    moreover have "0 < k'" using False "1.prems"(1) k by (cases k') auto
    ultimately have "length (digits10 (n div 10)) \<le> k'" using "1.IH" False by simp
    then show ?thesis using False k by (subst digits10.simps) simp
  qed
qed

lemma int_digit_ascii: "d < 10 \<Longrightarrow> int_digit rt (48 + d) = Some d"
  by (simp add: int_digit_def)

lemma int_digits_ascii:
  "ds \<noteq> [] \<Longrightarrow> \<forall>d\<in>set ds. d < 10 \<Longrightarrow> int_digits rt (map (\<lambda>d. 48 + d) ds) = Some ds"
proof (induction ds rule: induct_list012)
  case 1
  then show ?case by simp
next
  case (2 d)
  then show ?case by (simp add: int_digit_ascii)
next
  case (3 d e ds)
  then have "int_digits rt (map (\<lambda>d. 48 + d) (e # ds)) = Some (e # ds)" by simp
  moreover have "48 + e \<noteq> 95" using 3 by auto
  ultimately show ?case using 3 by (simp add: int_digit_ascii)
qed

lemma dropWhile_rev_last: "xs \<noteq> [] \<Longrightarrow> \<not> P (last xs) \<Longrightarrow> dropWhile P (rev xs) = rev xs"
  by (induction xs rule: rev_induct) simp_all

lemma py_int_ascii_digits:
  assumes "ds \<noteq> []" "\<forall>d\<in>set ds. d < 10" "length ds \<le> 640"
  shows "py_int rt (map (\<lambda>d. 48 + d) ds) = Inr (foldl (\<lambda>a d. 10 * a + int d) 0 ds)"
proof -
  let ?s = "map (\<lambda>d. 48 + d) ds"
  have nosp: "\<forall>c\<in>set ?s. \<not> int_space c" using assms(2) by (auto simp: int_space_def)
  obtain c cs where s: "?s = c # cs" using assms(1) by (cases ds) auto
  have "c \<in> set ?s" unfolding s by simp
  then have c: "48 \<le> c" "\<not> int_space c" using nosp by auto
  have d1: "dropWhile int_space ?s = ?s" using c(2) unfolding s by simp
  have "last ?s \<in> set ?s" using assms(1) by (intro last_in_set) simp
  then have lastc: "\<not> int_space (last ?s)" using nosp by blast
  have d2: "dropWhile int_space (rev ?s) = rev ?s"
    using assms(1) lastc by (intro dropWhile_rev_last) simp_all
  have sign: "(case ?s of c # cs \<Rightarrow> if c = 45 then (True, cs)
                  else if c = 43 then (False, cs) else (False, ?s)
               | [] \<Rightarrow> (False, ?s)) = (False, ?s)"
    using c(1) unfolding s by simp
  show ?thesis
    unfolding py_int_def d1 Let_def sign
    using assms(3) by (simp add: d2 int_digits_ascii[OF assms(1,2)] digits_allowed_def)
qed

lemma foldl_zeros: "foldl (\<lambda>a d. 10 * a + int d) 0 (replicate k 0) = 0"
  by (induction k) simp_all

lemma fmt_0d_nonneg:
  "0 \<le> n \<Longrightarrow> fmt_0d width n =
     map (\<lambda>d. 48 + d) (replicate (width - length (digits10 (nat n))) 0 @ digits10 (nat n))"
  by (simp add: fmt_0d_def Let_def)

lemma py_int_fmt_0d:
  assumes "0 \<le> n" "n < 10000" "width \<le> 4"
  shows "py_int rt (fmt_0d width n) = Inr n"
proof -
  let ?ds = "replicate (width - length (digits10 (nat n))) 0 @ digits10 (nat n)"
  have "nat n < 10 ^ 4" using assms(1,2) by simp
  then have len: "length (digits10 (nat n)) \<le> 4"
    by (intro digits10_length) simp_all
  have "foldl (\<lambda>a d. 10 * a + int d) 0 ?ds = foldl (\<lambda>a d. 10 * a + int d) 0 (digits10 (nat n))"
    by (simp add: foldl_zeros)
  then have val: "foldl (\<lambda>a d. 10 * a + int d) 0 ?ds = n"
    using assms(1) by (simp add: digits10_value)
  have "py_int rt (map (\<lambda>d. 48 + d) ?ds) = Inr (foldl (\<lambda>a d. 10 * a + int d) 0 ?ds)"
    using len assms(3) digits10_nonempty digits10_digit
    by (intro py_int_ascii_digits) auto
  then show ?thesis using assms(1) val by (simp add: fmt_0d_nonneg)
qed

lemma fmt_0d_no_dot: "46 \<notin> set (fmt_0d width n)"
  using digits10_digit by (auto simp: fmt_0d_def Let_def)

lemma split_on_no_sep: "sep \<notin> set s \<Longrightarrow> split_on sep s = [s]"
  by (induction s) auto

lemma split_on_sep: "sep \<notin> set a \<Longrightarrow> split_on sep (a @ sep # b) = a # split_on sep b"
  by (induction a) auto

lemma split_on_nonempty: "split_on sep s \<noteq> []"
  by (induction s) (auto split: list.splits)

lemma format_0d_small:
  assumes "0 \<le> n" "n < 10000"
  shows "format_0d rt width n = Inr (fmt_0d width n)"
proof -
  have "nat n < 10 ^ 4" using assms by simp
  then have "length (digits10 (nat n)) \<le> 4"
    by (intro digits10_length) simp_all
  then show ?thesis using assms(1) by (simp add: format_0d_def digits_allowed_def)
qed

text \<open>
  C8. For every date of the year 1912 or later, \<^verbatim>\<open>roc_to_western\<close> turns the text that
  \<^verbatim>\<open>to_roc\<close> makes of the date (the year minus 1911, \<^verbatim>\<open>YYY.MM.DD\<close>) into the date in the
  standard calendar, \<^verbatim>\<open>YYYY.MM.DD\<close>.
\<close>

theorem roc_round_trip:
  assumes "valid_date d" and "1912 \<le> year d"
  shows "roc_to_western rt (JStr (to_roc d True)) = JStr (western_text d)"
proof -
  let ?y = "fmt_0d 3 (year d - 1911)" and ?m = "fmt_0d 2 (month d)" and ?d = "fmt_0d 2 (day d)"
  have rng: "0 \<le> year d - 1911" "year d - 1911 < 10000" "0 \<le> year d" "year d < 10000"
    "0 \<le> month d" "month d < 10000" "0 \<le> day d" "day d < 10000"
    using assms by (auto simp: valid_date_def days_in_month_def split: if_splits)
  have dot: "ascii ''.'' = [46]" by (simp add: ascii_def)
  have roc_text: "to_roc d True = ?y @ 46 # ?m @ 46 # ?d"
    by (simp add: to_roc_def dot)
  have parts: "split_on 46 (to_roc d True) = [?y, ?m, ?d]"
    unfolding roc_text by (simp add: split_on_sep split_on_no_sep fmt_0d_no_dot)
  have ne: "to_roc d True \<noteq> []" unfolding roc_text by simp
  have "roc_to_western_try rt (JStr (to_roc d True)) = Inr (JStr (western_text d))"
    unfolding roc_to_western_try_def
    using rng
    by (simp add: parts py_int_fmt_0d format_0d_small western_text_def)
  then show ?thesis
    using ne by (simp add: roc_to_western_def)
qed

theorem roc_round_trip_witness:
  "valid_date sample_day \<and> 1912 \<le> year sample_day \<and>
   to_roc sample_day True = ascii ''109.01.01'' \<and>
   roc_to_western sample_runtime (JStr (ascii ''109.01.01'')) = JStr (ascii ''2020.01.01'')"
proof -
  have v: "valid_date sample_day" "1912 \<le> year sample_day"
    by (simp_all add: valid_date_def sample_day_def days_in_month_def is_leap_def)
  have t: "to_roc sample_day True = ascii ''109.01.01''"
    by (simp add: to_roc_def sample_day_def fmt_0d_def digits10.simps ascii_def)
  have w: "western_text sample_day = ascii ''2020.01.01''"
    by (simp add: western_text_def sample_day_def fmt_0d_def digits10.simps ascii_def)
  show ?thesis
    using v t w roc_round_trip[OF v, of sample_runtime] by simp
qed

text \<open>
  C9. A date string that does not have three segments between dots, or that has a
  segment that is not numeric, comes out of \<^verbatim>\<open>roc_to_western\<close> as it went in; the
  \<^verbatim>\<open>ValueError\<close> of \<^verbatim>\<open>int()\<close> stays inside the function.
\<close>

theorem roc_to_western_malformed:
  "length (split_on 46 s) \<noteq> 3 \<or> (\<exists>p\<in>set (split_on 46 s). \<not> numeric rt p) \<Longrightarrow>
   roc_to_western rt (JStr s) = JStr s"
proof (cases "s = []")
  case True
  then show ?thesis by (simp add: roc_to_western_def)
next
  case False
  assume a: "length (split_on 46 s) \<noteq> 3 \<or> (\<exists>p\<in>set (split_on 46 s). \<not> numeric rt p)"
  have "roc_to_western_try rt (JStr s) = Inr (JStr s) \<or>
        (\<exists>e. roc_to_western_try rt (JStr s) = Inl e)"
  proof (cases "\<exists>p0 p1 p2. split_on 46 s = [p0, p1, p2]")
    case False
    then have "roc_to_western_try rt (JStr s) = Inr (JStr s)"
      unfolding roc_to_western_try_def by (auto split: list.splits)
    then show ?thesis by simp
  next
    case True
    then obtain p0 p1 p2 where p: "split_on 46 s = [p0, p1, p2]" by blast
    then have "\<not> numeric rt p0 \<or> \<not> numeric rt p1 \<or> \<not> numeric rt p2" using a by auto
    then have "\<exists>e. roc_to_western_try rt (JStr s) = Inl e"
      unfolding roc_to_western_try_def
      by (auto simp: p numeric_def Let_def split: sum.splits)
    then show ?thesis by simp
  qed
  then show ?thesis
    using False by (auto simp: roc_to_western_def)
qed

theorem roc_to_western_malformed_witness:
  "length (split_on 46 (ascii ''109/01/01'')) \<noteq> 3 \<and>
   roc_to_western sample_runtime (JStr (ascii ''109/01/01'')) = JStr (ascii ''109/01/01'') \<and>
   \<not> numeric sample_runtime (ascii ''x'') \<and>
   roc_to_western sample_runtime (JStr (ascii ''109.x.01'')) = JStr (ascii ''109.x.01'')"
proof -
  have a: "length (split_on 46 (ascii ''109/01/01'')) \<noteq> 3"
    by (simp add: ascii_def)
  have b: "\<not> numeric sample_runtime (ascii ''x'')"
    by (simp add: numeric_def py_int_def ascii_def int_space_def int_digit_def)
  have c: "ascii ''x'' \<in> set (split_on 46 (ascii ''109.x.01''))"
    by (simp add: ascii_def)
  show ?thesis
    using a b roc_to_western_malformed[of "ascii ''109/01/01''" sample_runtime]
      roc_to_western_malformed[of "ascii ''109.x.01''" sample_runtime] c
    by blast
qed

section \<open>The record normalizer\<close>

lemma normalize_record_Inr:
  "normalize_record rt rec =
     Inr (dict_set zh_trans_date
            (roc_to_western rt (pick rec [ascii ''TransDate'', zh_trans_date]))
            [(zh_trans_date, pick rec [ascii ''TransDate'', zh_trans_date]),
             (zh_category_code, pick rec [ascii ''CategoryCode'', zh_category_code]),
             (zh_crop_code, pick rec [ascii ''CropCode'', zh_crop_code]),
             (zh_crop_name, pick rec [ascii ''CropName'', zh_crop_name]),
             (zh_market_code, pick rec [ascii ''MarketCode'', zh_market_code]),
             (zh_market_name, pick rec [ascii ''MarketName'', zh_market_name]),
             (zh_upper_price, pick rec [ascii ''UpperPrice'', zh_upper_price]),
             (zh_middle_price, pick rec [ascii ''MiddlePrice'', zh_middle_price]),
             (zh_lower_price, pick rec [ascii ''LowerPrice'', zh_lower_price]),
             (zh_average_price, pick rec [ascii ''AveragePrice'', zh_average_price]),
             (zh_trans_volume, pick rec [ascii ''TransVolume'', zh_trans_volume])])"
  unfolding normalize_record_def Let_def by simp

lemmas field_names =
  zh_trans_date_def zh_category_code_def zh_crop_code_def zh_crop_name_def
  zh_market_code_def zh_market_name_def zh_upper_price_def zh_middle_price_def
  zh_lower_price_def zh_average_price_def zh_trans_volume_def ascii_def

lemma pick_first_present: "pick rec candidates = first_present rec candidates"
  by (induction candidates)
     (auto simp: first_present_def present_nonempty_def dict_get_def split: option.splits)

lemma pick_not_None: "pick rec candidates \<noteq> JNull"
  by (induction candidates) (auto split: option.splits)

lemma roc_to_western_sample:
  "roc_to_western sample_runtime (JStr (ascii ''109.01.01'')) = JStr (ascii ''2020.01.01'')"
  by (simp add: roc_to_western_def roc_to_western_try_def py_int_def format_0d_def fmt_0d_def
      digits_allowed_def int_space_def int_digit_def digits10.simps ascii_def Let_def)

lemma roc_to_western_sample_again:
  "roc_to_western sample_runtime (JStr (ascii ''2020.01.01'')) = JStr (ascii ''3931.01.01'')"
  by (simp add: roc_to_western_def roc_to_western_try_def py_int_def format_0d_def fmt_0d_def
      digits_allowed_def int_space_def int_digit_def digits10.simps ascii_def Let_def)

lemma normalize_sample: "normalize_record sample_runtime sample_record = Inr sample_normalized"
  unfolding normalize_record_Inr sample_normalized_def
  by (simp add: sample_record_def roc_to_western_sample field_names
      roc_to_western_sample[unfolded ascii_def, simplified])

lemma normalize_again_sample:
  "normalize_record sample_runtime sample_normalized = Inr sample_renormalized"
  unfolding normalize_record_Inr sample_normalized_def sample_renormalized_def
  by (simp add: field_names roc_to_western_sample_again[unfolded ascii_def, simplified])

lemma roc_to_western_not_None: "roc_to_western rt v \<noteq> JNull"
proof (cases "truthy v")
  case False
  then show ?thesis by (simp add: roc_to_western_def)
next
  case True
  then have v: "v \<noteq> JNull" by auto
  have "roc_to_western_try rt v = Inr x \<Longrightarrow> x \<noteq> JNull" for x
    using v unfolding roc_to_western_try_def
    by (auto simp: Let_def split: json.splits list.splits sum.splits)
  then show ?thesis
    using True v by (auto simp: roc_to_western_def split: sum.splits)
qed

text \<open>
  C3 (amended). For every record, also the empty one and one with values that are not
  strings, \<^verbatim>\<open>normalize_record\<close> raises nothing and returns a dict with exactly the output
  fields, in their order. Every field but the transaction date holds the first value
  among its source names that is present and not empty, or the empty string; the
  transaction date holds \<^verbatim>\<open>roc_to_western\<close> of that value.
\<close>

theorem normalize_record_total:
  "\<exists>d. normalize_record rt rec = Inr d \<and> map fst d = OUTPUT_FIELDS \<and>
     (\<forall>(field, candidates) \<in> set source_names.
        map_of d field =
          Some (if field = zh_trans_date then roc_to_western rt (first_present rec candidates)
                else first_present rec candidates))"
  unfolding normalize_record_Inr pick_first_present
  by (simp add: OUTPUT_FIELDS_def source_names_def field_names)

theorem normalize_record_total_witness:
  "\<exists>d. normalize_record sample_runtime [] = Inr d \<and> map fst d = OUTPUT_FIELDS \<and>
     map_of d zh_trans_date = Some (JStr []) \<and> map_of d zh_crop_code = Some (JStr [])"
proof -
  have fp: "first_present [] candidates = JStr []" for candidates
    by (induction candidates) (simp_all add: first_present_def present_nonempty_def)
  have e: "roc_to_western sample_runtime (JStr []) = JStr []"
    by (simp add: roc_to_western_def)
  obtain d where d: "normalize_record sample_runtime [] = Inr d" "map fst d = OUTPUT_FIELDS"
    "\<forall>(field, candidates) \<in> set source_names.
        map_of d field =
          Some (if field = zh_trans_date
                then roc_to_western sample_runtime (first_present [] candidates)
                else first_present [] candidates)"
    using normalize_record_total[of sample_runtime "[]"] by blast
  have "map_of d zh_trans_date = Some (JStr [])" "map_of d zh_crop_code = Some (JStr [])"
    using d(3) by (simp_all add: source_names_def fp e field_names)
  then show ?thesis using d(1,2) by blast
qed

text \<open>
  The claim as it is written fails on the transaction date: the sample record has the
  date \<^verbatim>\<open>109.01.01\<close> under \<^verbatim>\<open>TransDate\<close>, and the normalized record holds \<^verbatim>\<open>2020.01.01\<close>.
\<close>

theorem normalize_record_date_counterexample:
  "normalize_record sample_runtime sample_record = Inr sample_normalized \<and>
   map_of sample_normalized zh_trans_date = Some (JStr (ascii ''2020.01.01'')) \<and>
   first_present sample_record [ascii ''TransDate'', zh_trans_date] = JStr (ascii ''109.01.01'') \<and>
   JStr (ascii ''2020.01.01'') \<noteq> JStr (ascii ''109.01.01'')"
  by (simp add: normalize_sample)
     (simp add: sample_normalized_def sample_record_def first_present_def present_nonempty_def
        dict_get_def field_names)

lemma dict_set_head: "dict_set k v ((k, u) # kvs) = (k, v) # kvs"
  by simp

lemma pick_two:
  "map_of d en = None \<Longrightarrow> map_of d zh = Some v \<Longrightarrow> v \<noteq> JNull \<Longrightarrow> pick d [en, zh] = v"
  by simp

lemma normalize_record_again_aux:
  assumes nn: "v0 \<noteq> JNull" "v1 \<noteq> JNull" "v2 \<noteq> JNull" "v3 \<noteq> JNull" "v4 \<noteq> JNull"
    "v5 \<noteq> JNull" "v6 \<noteq> JNull" "v7 \<noteq> JNull" "v8 \<noteq> JNull" "v9 \<noteq> JNull" "v10 \<noteq> JNull"
    and d: "d = [(zh_trans_date, v0), (zh_category_code, v1), (zh_crop_code, v2),
                 (zh_crop_name, v3), (zh_market_code, v4), (zh_market_name, v5),
                 (zh_upper_price, v6), (zh_middle_price, v7), (zh_lower_price, v8),
                 (zh_average_price, v9), (zh_trans_volume, v10)]"
  shows "normalize_record rt d = Inr (dict_set zh_trans_date (roc_to_western rt v0) d)"
proof -
  have en: "map_of d (ascii ''TransDate'') = None" "map_of d (ascii ''CategoryCode'') = None"
    "map_of d (ascii ''CropCode'') = None" "map_of d (ascii ''CropName'') = None"
    "map_of d (ascii ''MarketCode'') = None" "map_of d (ascii ''MarketName'') = None"
    "map_of d (ascii ''UpperPrice'') = None" "map_of d (ascii ''MiddlePrice'') = None"
    "map_of d (ascii ''LowerPrice'') = None" "map_of d (ascii ''AveragePrice'') = None"
    "map_of d (ascii ''TransVolume'') = None"
    unfolding d by (simp_all add: field_names)
  have zh: "map_of d zh_trans_date = Some v0" "map_of d zh_category_code = Some v1"
    "map_of d zh_crop_code = Some v2" "map_of d zh_crop_name = Some v3"
    "map_of d zh_market_code = Some v4" "map_of d zh_market_name = Some v5"
    "map_of d zh_upper_price = Some v6" "map_of d zh_middle_price = Some v7"
    "map_of d zh_lower_price = Some v8" "map_of d zh_average_price = Some v9"
    "map_of d zh_trans_volume = Some v10"
    unfolding d by (simp_all add: field_names)
  have picks: "pick d [ascii ''TransDate'', zh_trans_date] = v0"
    "pick d [ascii ''CategoryCode'', zh_category_code] = v1"
    "pick d [ascii ''CropCode'', zh_crop_code] = v2"
    "pick d [ascii ''CropName'', zh_crop_name] = v3"
    "pick d [ascii ''MarketCode'', zh_market_code] = v4"
    "pick d [ascii ''MarketName'', zh_market_name] = v5"
    "pick d [ascii ''UpperPrice'', zh_upper_price] = v6"
    "pick d [ascii ''MiddlePrice'', zh_middle_price] = v7"
    "pick d [ascii ''LowerPrice'', zh_lower_price] = v8"
    "pick d [ascii ''AveragePrice'', zh_average_price] = v9"
    "pick d [ascii ''TransVolume'', zh_trans_volume] = v10"
    by (rule pick_two, rule en, rule zh, rule nn)+
  show ?thesis
    unfolding normalize_record_Inr picks d[symmetric] ..
qed

text \<open>
  C4 (amended). Normalizing a normalized record again leaves every field but the
  transaction date as it is, and applies \<^verbatim>\<open>roc_to_western\<close> once more to the transaction
  date, which is already converted; the record comes out unchanged when its date is
  one that \<^verbatim>\<open>roc_to_western\<close> leaves as it is.
\<close>

theorem normalize_record_again:
  assumes "normalize_record rt r = Inr d"
  shows "\<exists>v. map_of d zh_trans_date = Some v \<and>
     normalize_record rt d = Inr (dict_set zh_trans_date (roc_to_western rt v) d) \<and>
     (\<forall>k. k \<noteq> zh_trans_date \<longrightarrow>
        map_of (dict_set zh_trans_date (roc_to_western rt v) d) k = map_of d k) \<and>
     (roc_to_western rt v = v \<longrightarrow> normalize_record rt d = Inr d)"
proof -
  define v where "v = roc_to_western rt (pick r [ascii ''TransDate'', zh_trans_date])"
  define rest where "rest =
            [(zh_category_code, pick r [ascii ''CategoryCode'', zh_category_code]),
             (zh_crop_code, pick r [ascii ''CropCode'', zh_crop_code]),
             (zh_crop_name, pick r [ascii ''CropName'', zh_crop_name]),
             (zh_market_code, pick r [ascii ''MarketCode'', zh_market_code]),
             (zh_market_name, pick r [ascii ''MarketName'', zh_market_name]),
             (zh_upper_price, pick r [ascii ''UpperPrice'', zh_upper_price]),
             (zh_middle_price, pick r [ascii ''MiddlePrice'', zh_middle_price]),
             (zh_lower_price, pick r [ascii ''LowerPrice'', zh_lower_price]),
             (zh_average_price, pick r [ascii ''AveragePrice'', zh_average_price]),
             (zh_trans_volume, pick r [ascii ''TransVolume'', zh_trans_volume])]"
  have "Inr d = normalize_record rt r" using assms by simp
  also have "\<dots> = Inr ((zh_trans_date, v) # rest)"
    unfolding normalize_record_Inr v_def rest_def by (simp only: dict_set_head)
  finally have d: "d = (zh_trans_date, v) # rest" by simp
  have n: "normalize_record rt d = Inr (dict_set zh_trans_date (roc_to_western rt v) d)"
    by (rule normalize_record_again_aux[OF _ _ _ _ _ _ _ _ _ _ _ d[unfolded rest_def]])
       (unfold v_def, (rule roc_to_western_not_None pick_not_None)+)
  have look: "map_of d zh_trans_date = Some v" unfolding d by simp
  have others: "\<forall>k. k \<noteq> zh_trans_date \<longrightarrow>
        map_of (dict_set zh_trans_date (roc_to_western rt v) d) k = map_of d k"
    unfolding d by simp
  have same: "roc_to_western rt v = v \<longrightarrow> normalize_record rt d = Inr d"
  proof
    assume "roc_to_western rt v = v"
    then have "dict_set zh_trans_date (roc_to_western rt v) d = d"
      unfolding d by simp
    then show "normalize_record rt d = Inr d" using n by simp
  qed
  show ?thesis using look n others same by blast
qed

theorem normalize_record_again_witness:
  "normalize_record sample_runtime sample_record = Inr sample_normalized \<and>
   (\<exists>v. map_of sample_normalized zh_trans_date = Some v \<and>
     normalize_record sample_runtime sample_normalized =
       Inr (dict_set zh_trans_date (roc_to_western sample_runtime v) sample_normalized))"
  using normalize_record_again[OF normalize_sample] normalize_sample by blast

text \<open>
  The claim as it is written fails: the sample record normalizes to a record with the
  date \<^verbatim>\<open>2020.01.01\<close>, and that record normalizes to one with the date \<^verbatim>\<open>3931.01.01\<close>.
\<close>

theorem normalize_record_idempotence_counterexample:
  "normalize_record sample_runtime sample_record = Inr sample_normalized \<and>
   normalize_record sample_runtime sample_normalized = Inr sample_renormalized \<and>
   sample_renormalized \<noteq> sample_normalized"
  by (simp add: normalize_sample normalize_again_sample)
     (simp add: sample_normalized_def sample_renormalized_def ascii_def)

text \<open>
  C10. The calendar conversion touches the transaction date only: every other field of
  the normalized record is the very value, of whatever type, that is first present and
  not empty among the source names of the field, or the empty string.
\<close>

theorem normalize_record_frame:
  "\<exists>d. normalize_record rt rec = Inr d \<and>
     (\<forall>(field, candidates) \<in> set source_names.
        field \<noteq> zh_trans_date \<longrightarrow> map_of d field = Some (first_present rec candidates))"
  unfolding normalize_record_Inr pick_first_present
  by (simp add: source_names_def field_names)

theorem normalize_record_frame_witness:
  "\<exists>d. normalize_record sample_runtime
          [(ascii ''CropCode'', JNull), (zh_crop_code, JInt 72), (ascii ''UpperPrice'', JInt 35)]
        = Inr d \<and>
     map_of d zh_crop_code = Some (JInt 72) \<and> map_of d zh_upper_price = Some (JInt 35) \<and>
     map_of d zh_crop_name = Some (JStr [])"
proof -
  let ?rec = "[(ascii ''CropCode'', JNull), (zh_crop_code, JInt 72), (ascii ''UpperPrice'', JInt 35)]"
  obtain d where d: "normalize_record sample_runtime ?rec = Inr d"
    "\<forall>(field, candidates) \<in> set source_names.
        field \<noteq> zh_trans_date \<longrightarrow> map_of d field = Some (first_present ?rec candidates)"
    using normalize_record_frame[of sample_runtime ?rec] by blast
  have "map_of d zh_crop_code = Some (JInt 72)" "map_of d zh_upper_price = Some (JInt 35)"
    "map_of d zh_crop_name = Some (JStr [])"
    using d(2)
    by (simp_all add: source_names_def first_present_def present_nonempty_def dict_get_def
        field_names)
  then show ?thesis using d(1) by blast
qed

section \<open>Retries of one page fetch\<close>

lemma get_json_from_returned:
  "i < max_retry \<Longrightarrow> up (attempts w) url ps = Returned v \<Longrightarrow>
   get_json_from up url ps max_retry i w =
     (v, w\<lparr>attempts := Suc (attempts w), sent := sent w @ [(url, ps)]\<rparr>)"
  by (subst get_json_from.simps) (simp add: Let_def)

lemma get_json_from_failed:
  "i < max_retry \<Longrightarrow> up (attempts w) url ps = Failed \<Longrightarrow>
   get_json_from up url ps max_retry i w =
     get_json_from up url ps max_retry (Suc i)
       (w\<lparr>attempts := Suc (attempts w), sent := sent w @ [(url, ps)],
          slept := slept w @ [RETRY_DELAY_BASE * (int i + 1)]\<rparr>)"
  by (subst get_json_from.simps) (simp add: Let_def)

lemma get_json_from_exhausted:
  "\<not> i < max_retry \<Longrightarrow> get_json_from up url ps max_retry i w = (JList [], w)"
  by (subst get_json_from.simps) simp

lemma get_json_from_runs:
  "i \<le> max_retry \<Longrightarrow>
   \<exists>m. i + m \<le> max_retry \<and> (\<forall>k<m. up (attempts w + k) url ps = Failed) \<and>
     slept (snd (get_json_from up url ps max_retry i w)) =
       slept w @ map (\<lambda>k. RETRY_DELAY_BASE * int k) [Suc i..<Suc (i + m)] \<and>
     (if i + m < max_retry
      then up (attempts w + m) url ps = Returned (fst (get_json_from up url ps max_retry i w)) \<and>
           attempts (snd (get_json_from up url ps max_retry i w)) = attempts w + m + 1
      else fst (get_json_from up url ps max_retry i w) = JList [] \<and>
           attempts (snd (get_json_from up url ps max_retry i w)) = attempts w + m)"
proof (induction up url ps max_retry i w rule: get_json_from.induct)
  case (1 up url ps max_retry i w)
  let ?w' = "w\<lparr>attempts := Suc (attempts w), sent := sent w @ [(url, ps)]\<rparr>"
  let ?w'' = "?w'\<lparr>slept := slept ?w' @ [RETRY_DELAY_BASE * (int i + 1)]\<rparr>"
  show ?case
  proof (cases "i < max_retry")
    case False
    then have "get_json_from up url ps max_retry i w = (JList [], w)"
      by (rule get_json_from_exhausted)
    then show ?thesis using False "1.prems" by (intro exI[of _ 0]) simp
  next
    case True
    show ?thesis
    proof (cases "up (attempts w) url ps")
      case (Returned v)
      then have "get_json_from up url ps max_retry i w = (v, ?w')"
        using True by (simp add: get_json_from_returned)
      then show ?thesis using True Returned by (intro exI[of _ 0]) simp
    next
      case Failed
      have eq: "get_json_from up url ps max_retry i w =
                get_json_from up url ps max_retry (Suc i) ?w''"
        using True Failed by (simp add: get_json_from_failed)
      let ?r = "get_json_from up url ps max_retry (Suc i) ?w''"
      from "1.IH"[OF True refl Failed] True
      obtain m where m: "Suc i + m \<le> max_retry"
        "\<forall>k<m. up (attempts ?w'' + k) url ps = Failed"
        "slept (snd ?r) = slept ?w'' @ map (\<lambda>k. RETRY_DELAY_BASE * int k) [Suc (Suc i)..<Suc (Suc i + m)]"
        "if Suc i + m < max_retry
         then up (attempts ?w'' + m) url ps = Returned (fst ?r) \<and>
              attempts (snd ?r) = attempts ?w'' + m + 1
         else fst ?r = JList [] \<and> attempts (snd ?r) = attempts ?w'' + m"
        by auto
      have fails: "\<forall>k<Suc m. up (attempts w + k) url ps = Failed"
      proof (intro allI impI)
        fix k assume "k < Suc m"
        then show "up (attempts w + k) url ps = Failed"
          using Failed m(2) by (cases k) auto
      qed
      have sl: "slept (snd ?r) =
                slept w @ map (\<lambda>k. RETRY_DELAY_BASE * int k) [Suc i..<Suc (i + Suc m)]"
        using m(3) by (simp add: upt_conv_Cons algebra_simps)
      show ?thesis
        unfolding eq
        using m(1,4) fails sl by (intro exI[of _ "Suc m"]) (simp split: if_splits)
    qed
  qed
qed

text \<open>
  C6. A page fetch makes at most five attempts. If \<open>m\<close> attempts fail before it ends,
  it has slept \<open>1\<close>, \<open>2\<close>, ..., \<open>m\<close> times the base delay, one sleep after each failed
  attempt; it returns the body of the first attempt that succeeds, or the empty list
  after five failures. When the first four attempts fail and the fifth succeeds, it
  returns the body of the fifth attempt after the delays 1, 2, 3, 4 and does not sleep
  or give up after it.
\<close>

theorem get_json_retry:
  "(\<exists>m\<le>5. (\<forall>k<m. up (attempts w + k) url ps = Failed) \<and>
      slept (snd (get_json up url ps 5 w)) =
        slept w @ map (\<lambda>k. int k * RETRY_DELAY_BASE) [1..<Suc m] \<and>
      (if m < 5
       then up (attempts w + m) url ps = Returned (fst (get_json up url ps 5 w)) \<and>
            attempts (snd (get_json up url ps 5 w)) = attempts w + m + 1
       else fst (get_json up url ps 5 w) = JList [] \<and>
            attempts (snd (get_json up url ps 5 w)) = attempts w + 5)) \<and>
   ((\<forall>k<4. up (attempts w + k) url ps = Failed) \<and>
    up (attempts w + 4) url ps = Returned v \<longrightarrow>
      get_json up url ps 5 w =
        (v, w\<lparr>attempts := attempts w + 5, sent := sent w @ replicate 5 (url, ps),
              slept := slept w @ [1, 2, 3, 4]\<rparr>))"
proof (intro conjI impI)
  obtain m where m: "0 + m \<le> 5" "\<forall>k<m. up (attempts w + k) url ps = Failed"
    "slept (snd (get_json_from up url ps 5 0 w)) =
       slept w @ map (\<lambda>k. RETRY_DELAY_BASE * int k) [Suc 0..<Suc (0 + m)]"
    "if 0 + m < 5
     then up (attempts w + m) url ps = Returned (fst (get_json_from up url ps 5 0 w)) \<and>
          attempts (snd (get_json_from up url ps 5 0 w)) = attempts w + m + 1
     else fst (get_json_from up url ps 5 0 w) = JList [] \<and>
          attempts (snd (get_json_from up url ps 5 0 w)) = attempts w + m"
    using get_json_from_runs[of 0 5 up w url ps] by auto
  show "\<exists>m\<le>5. (\<forall>k<m. up (attempts w + k) url ps = Failed) \<and>
      slept (snd (get_json up url ps 5 w)) =
        slept w @ map (\<lambda>k. int k * RETRY_DELAY_BASE) [1..<Suc m] \<and>
      (if m < 5
       then up (attempts w + m) url ps = Returned (fst (get_json up url ps 5 w)) \<and>
            attempts (snd (get_json up url ps 5 w)) = attempts w + m + 1
       else fst (get_json up url ps 5 w) = JList [] \<and>
            attempts (snd (get_json up url ps 5 w)) = attempts w + 5)"
    unfolding get_json_def
    using m by (intro exI[of _ m]) (auto simp: mult.commute split: if_splits)
next
  assume a: "(\<forall>k<4. up (attempts w + k) url ps = Failed) \<and>
    up (attempts w + 4) url ps = Returned v"
  have f: "up (attempts w) url ps = Failed" "up (Suc (attempts w)) url ps = Failed"
    "up (Suc (Suc (attempts w))) url ps = Failed"
    "up (Suc (Suc (Suc (attempts w)))) url ps = Failed"
    "up (Suc (Suc (Suc (Suc (attempts w))))) url ps = Returned v"
    using a spec[of "\<lambda>k. k < 4 \<longrightarrow> up (attempts w + k) url ps = Failed" 0]
      spec[of "\<lambda>k. k < 4 \<longrightarrow> up (attempts w + k) url ps = Failed" 1]
      spec[of "\<lambda>k. k < 4 \<longrightarrow> up (attempts w + k) url ps = Failed" 2]
      spec[of "\<lambda>k. k < 4 \<longrightarrow> up (attempts w + k) url ps = Failed" 3]
    by (simp_all add: numeral_eq_Suc)
  show "get_json up url ps 5 w =
        (v, w\<lparr>attempts := attempts w + 5, sent := sent w @ replicate 5 (url, ps),
              slept := slept w @ [1, 2, 3, 4]\<rparr>)"
    unfolding get_json_def
    by (simp add: get_json_from_failed get_json_from_returned f RETRY_DELAY_BASE_def
        numeral_eq_Suc)
qed

theorem get_json_retry_witness:
  "get_json (\<lambda>k u p. if k < 4 then Failed else Returned (JList [JInt 7])) FARM_TRANS_URL
     \<lparr>StartDate = [], EndDate = [], top = 2000, skip = 0, TcType = ascii ''N05''\<rparr> 5
     \<lparr>attempts = 0, sent = [], slept = []\<rparr> =
     (JList [JInt 7],
      \<lparr>attempts = 5,
       sent = replicate 5 (FARM_TRANS_URL,
                \<lparr>StartDate = [], EndDate = [], top = 2000, skip = 0, TcType = ascii ''N05''\<rparr>),
       slept = [1, 2, 3, 4]\<rparr>)"
  using get_json_retry[of "\<lambda>k u p. if k < 4 then Failed else Returned (JList [JInt 7])"
      "\<lparr>attempts = 0, sent = [], slept = []\<rparr>" FARM_TRANS_URL
      "\<lparr>StartDate = [], EndDate = [], top = 2000, skip = 0, TcType = ascii ''N05''\<rparr>"
      "JList [JInt 7]"]
  by simp

section \<open>The paged fetcher\<close>

lemma keep_matching_append:
  "keep_matching rt (xs @ ys) acc =
     (case keep_matching rt xs acc of Inl e \<Rightarrow> Inl e | Inr acc' \<Rightarrow> keep_matching rt ys acc')"
  by (induction xs arbitrary: acc) (auto split: json.splits sum.splits)

lemma get_json_first_attempt:
  "up (attempts w) url ps = Returned v \<Longrightarrow>
   get_json up url ps 5 w = (v, w\<lparr>attempts := Suc (attempts w), sent := sent w @ [(url, ps)]\<rparr>)"
  unfolding get_json_def by (simp add: get_json_from_returned)

lemma get_json_all_failed:
  assumes "\<forall>k<5. up (attempts w + k) url ps = Failed"
  shows "get_json up url ps 5 w =
     (JList [], w\<lparr>attempts := attempts w + 5, sent := sent w @ replicate 5 (url, ps),
                  slept := slept w @ [1, 2, 3, 4, 5]\<rparr>)"
proof -
  have f: "up (attempts w) url ps = Failed" "up (Suc (attempts w)) url ps = Failed"
    "up (Suc (Suc (attempts w))) url ps = Failed"
    "up (Suc (Suc (Suc (attempts w)))) url ps = Failed"
    "up (Suc (Suc (Suc (Suc (attempts w))))) url ps = Failed"
    using assms spec[OF assms, of 0] spec[OF assms, of 1] spec[OF assms, of 2]
      spec[OF assms, of 3] spec[OF assms, of 4]
    by (simp_all add: numeral_eq_Suc)
  show ?thesis
    unfolding get_json_def
    by (simp add: get_json_from_failed get_json_from_exhausted f RETRY_DELAY_BASE_def
        numeral_eq_Suc)
qed

lemma fetch_loop_full_pages:
  "(\<forall>i<m. up (attempts w + i) FARM_TRANS_URL
              (page_params ps pe page_top ((int j + int i) * page_top)) = Returned (pg (j + i)) \<and>
           full_page page_top (pg (j + i))) \<Longrightarrow>
   keep_matching rt (concat (map (records_of \<circ> pg) [j..<j + m])) acc = Inr acc' \<Longrightarrow>
   fetch_loop rt up ps pe page_top (int j * page_top) acc w =
     fetch_loop rt up ps pe page_top (int (j + m) * page_top) acc'
       (w\<lparr>attempts := attempts w + m,
          sent := sent w @ map (\<lambda>i. (FARM_TRANS_URL, page_params ps pe page_top (int i * page_top)))
                             [j..<j + m]\<rparr>)"
proof (induction m arbitrary: j acc w)
  case 0
  then show ?case by simp
next
  case (Suc m)
  let ?w1 = "w\<lparr>attempts := Suc (attempts w),
               sent := sent w @ [(FARM_TRANS_URL, page_params ps pe page_top (int j * page_top))]\<rparr>"
  have first: "up (attempts w) FARM_TRANS_URL (page_params ps pe page_top (int j * page_top))
                 = Returned (pg j)" "full_page page_top (pg j)"
    using Suc.prems(1)[rule_format, of 0] by simp_all
  obtain recs where recs: "pg j = JList recs" "recs \<noteq> []" "page_top \<le> int (length recs)"
    using first(2) by (auto simp: full_page_def split: json.splits)
  have up: "[j..<j + Suc m] = j # [Suc j..<Suc j + m]"
    using upt_conv_Cons[of j "j + Suc m"] by simp
  have cc: "concat (map (records_of \<circ> pg) [j..<j + Suc m]) =
            recs @ concat (map (records_of \<circ> pg) [Suc j..<Suc j + m])"
    unfolding up by (simp add: recs(1) records_of_def)
  obtain acc1 where acc1: "keep_matching rt recs acc = Inr acc1"
      "keep_matching rt (concat (map (records_of \<circ> pg) [Suc j..<Suc j + m])) acc1 = Inr acc'"
    using Suc.prems(2) unfolding cc keep_matching_append by (auto split: sum.splits)
  have rest: "\<forall>i<m. up (attempts ?w1 + i) FARM_TRANS_URL
              (page_params ps pe page_top ((int (Suc j) + int i) * page_top))
                = Returned (pg (Suc j + i)) \<and> full_page page_top (pg (Suc j + i))"
  proof (intro allI impI)
    fix i assume "i < m"
    then show "up (attempts ?w1 + i) FARM_TRANS_URL
              (page_params ps pe page_top ((int (Suc j) + int i) * page_top))
                = Returned (pg (Suc j + i)) \<and> full_page page_top (pg (Suc j + i))"
      using Suc.prems(1)[rule_format, of "Suc i"] by (simp add: algebra_simps)
  qed
  have gj: "get_json up FARM_TRANS_URL (page_params ps pe page_top (int j * page_top)) 5 w =
        (JList recs, ?w1)"
    using first(1) unfolding recs(1) by (rule get_json_first_attempt)
  have nxt: "int j * page_top + page_top = int (Suc j) * page_top"
    by (simp add: algebra_simps)
  have step: "fetch_loop rt up ps pe page_top (int j * page_top) acc w =
        fetch_loop rt up ps pe page_top (int (Suc j) * page_top) acc1 ?w1"
    using recs(2,3)
    by (subst fetch_loop.simps) (simp add: gj acc1(1) nxt not_less del: of_nat_Suc)
  show ?case
    unfolding step Suc.IH[OF rest acc1(2)] up
    by simp
qed

lemma fetch_loop_last_page:
  assumes "up (attempts w) FARM_TRANS_URL (page_params ps pe page_top skp) = Returned v"
    and "\<not> full_page page_top v"
    and "keep_matching rt (records_of v) acc = Inr acc'"
  shows "fetch_loop rt up ps pe page_top skp acc w =
     Some (Inr acc', w\<lparr>attempts := Suc (attempts w),
                       sent := sent w @ [(FARM_TRANS_URL, page_params ps pe page_top skp)]\<rparr>)"
proof -
  have gj: "get_json up FARM_TRANS_URL (page_params ps pe page_top skp) 5 w =
        (v, w\<lparr>attempts := Suc (attempts w),
              sent := sent w @ [(FARM_TRANS_URL, page_params ps pe page_top skp)]\<rparr>)"
    using assms(1) by (rule get_json_first_attempt)
  show ?thesis
    using assms(2,3)
    by (subst fetch_loop.simps)
       (auto simp: gj full_page_def records_of_def split: json.splits)
qed

lemma fetch_loop_exhausted:
  assumes "\<forall>k<5. up (attempts w + k) FARM_TRANS_URL (page_params ps pe page_top skp) = Failed"
  shows "fetch_loop rt up ps pe page_top skp acc w =
     Some (Inr acc,
           w\<lparr>attempts := attempts w + 5,
             sent := sent w @ replicate 5 (FARM_TRANS_URL, page_params ps pe page_top skp),
             slept := slept w @ [1, 2, 3, 4, 5]\<rparr>)"
proof -
  have gj: "get_json up FARM_TRANS_URL (page_params ps pe page_top skp) 5 w =
     (JList [], w\<lparr>attempts := attempts w + 5,
                  sent := sent w @ replicate 5 (FARM_TRANS_URL, page_params ps pe page_top skp),
                  slept := slept w @ [1, 2, 3, 4, 5]\<rparr>)"
    using assms by (rule get_json_all_failed)
  show ?thesis
    by (subst fetch_loop.simps) (simp add: gj)
qed

lemma keep_matching_all_N05:
  "\<forall>rec\<in>set recs. is_N05 (category_of rec) \<Longrightarrow>
   \<exists>rows. keep_matching rt (map JDict recs) acc = Inr (acc @ rows) \<and>
          map Inr rows = map (normalize_record rt) recs"
proof (induction recs arbitrary: acc)
  case Nil
  then show ?case by simp
next
  case (Cons rec recs)
  obtain row where row: "normalize_record rt rec = Inr row"
    using normalize_record_Inr by blast
  obtain rows where rows: "keep_matching rt (map JDict recs) (acc @ [row]) = Inr ((acc @ [row]) @ rows)"
    "map Inr rows = map (normalize_record rt) recs"
    using Cons.IH[of "acc @ [row]"] Cons.prems by auto
  have "keep_matching rt (map JDict (rec # recs)) acc = Inr (acc @ row # rows)"
    using Cons.prems row rows(1) by (simp add: category_of_def)
  then show ?case using row rows(2) by (intro exI[of _ "row # rows"]) simp
qed

lemma fetch_period_block_pages:
  assumes full: "\<forall>i<n. up (attempts w + i) FARM_TRANS_URL
                    (page_params ps pe page_top (int i * page_top)) = Returned (pg i) \<and>
                  full_page page_top (pg i)"
    and last: "up (attempts w + n) FARM_TRANS_URL
                 (page_params ps pe page_top (int n * page_top)) = Returned (pg n)"
      "\<not> full_page page_top (pg n)"
    and rows: "keep_matching rt (concat (map (records_of \<circ> pg) [0..<Suc n])) [] = Inr rows"
  shows "fetch_period_block rt up ps pe page_top w =
     Some (Inr rows,
           w\<lparr>attempts := attempts w + n + 1,
             sent := sent w @ map (\<lambda>i. (FARM_TRANS_URL,
                                        page_params ps pe page_top (int i * page_top)))
                                [0..<Suc n]\<rparr>)"
proof -
  obtain acc where acc: "keep_matching rt (concat (map (records_of \<circ> pg) [0..<0 + n])) [] = Inr acc"
      "keep_matching rt (records_of (pg n)) acc = Inr rows"
    using rows by (auto simp: keep_matching_append split: sum.splits)
  let ?w = "w\<lparr>attempts := attempts w + n,
               sent := sent w @ map (\<lambda>i. (FARM_TRANS_URL,
                                          page_params ps pe page_top (int i * page_top)))
                                  [0..<0 + n]\<rparr>"
  have full': "\<forall>i<n. up (attempts w + i) FARM_TRANS_URL
                (page_params ps pe page_top ((int 0 + int i) * page_top)) = Returned (pg (0 + i)) \<and>
              full_page page_top (pg (0 + i))"
    using full by simp
  have "fetch_loop rt up ps pe page_top (int 0 * page_top) [] w =
        fetch_loop rt up ps pe page_top (int (0 + n) * page_top) acc ?w"
    using full' acc(1) by (rule fetch_loop_full_pages)
  moreover have "fetch_loop rt up ps pe page_top (int (0 + n) * page_top) acc ?w =
     Some (Inr rows, ?w\<lparr>attempts := Suc (attempts ?w),
                         sent := sent ?w @ [(FARM_TRANS_URL,
                                   page_params ps pe page_top (int (0 + n) * page_top))]\<rparr>)"
    using last acc(2) by (intro fetch_loop_last_page) simp_all
  ultimately show ?thesis
    unfolding fetch_period_block_def by simp
qed

lemma fetch_period_block_pages_exhausted:
  assumes full: "\<forall>i<n. up (attempts w + i) FARM_TRANS_URL
                    (page_params ps pe page_top (int i * page_top)) = Returned (pg i) \<and>
                  full_page page_top (pg i)"
    and fail: "\<forall>k<5. up (attempts w + n + k) FARM_TRANS_URL
                 (page_params ps pe page_top (int n * page_top)) = Failed"
    and rows: "keep_matching rt (concat (map (records_of \<circ> pg) [0..<n])) [] = Inr rows"
  shows "fetch_period_block rt up ps pe page_top w =
     Some (Inr rows,
           w\<lparr>attempts := attempts w + n + 5,
             sent := sent w @ map (\<lambda>i. (FARM_TRANS_URL,
                                        page_params ps pe page_top (int i * page_top)))
                                [0..<n] @
                     replicate 5 (FARM_TRANS_URL, page_params ps pe page_top (int n * page_top)),
             slept := slept w @ [1, 2, 3, 4, 5]\<rparr>)"
proof -
  let ?w = "w\<lparr>attempts := attempts w + n,
               sent := sent w @ map (\<lambda>i. (FARM_TRANS_URL,
                                          page_params ps pe page_top (int i * page_top)))
                                  [0..<0 + n]\<rparr>"
  have full': "\<forall>i<n. up (attempts w + i) FARM_TRANS_URL
                (page_params ps pe page_top ((int 0 + int i) * page_top)) = Returned (pg (0 + i)) \<and>
              full_page page_top (pg (0 + i))"
    using full by simp
  have rows': "keep_matching rt (concat (map (records_of \<circ> pg) [0..<0 + n])) [] = Inr rows"
    using rows by simp
  have "fetch_loop rt up ps pe page_top (int 0 * page_top) [] w =
        fetch_loop rt up ps pe page_top (int (0 + n) * page_top) rows ?w"
    using full' rows' by (rule fetch_loop_full_pages)
  moreover have "fetch_loop rt up ps pe page_top (int (0 + n) * page_top) rows ?w =
     Some (Inr rows,
           ?w\<lparr>attempts := attempts ?w + 5,
              sent := sent ?w @ replicate 5 (FARM_TRANS_URL,
                                   page_params ps pe page_top (int (0 + n) * page_top)),
              slept := slept ?w @ [1, 2, 3, 4, 5]\<rparr>)"
    using fail by (intro fetch_loop_exhausted) simp
  ultimately show ?thesis
    unfolding fetch_period_block_def by simp
qed

lemma get_json_from_sent:
  "sent (snd (get_json_from up url ps max_retry i w)) =
     sent w @ replicate (attempts (snd (get_json_from up url ps max_retry i w)) - attempts w) (url, ps) \<and>
   attempts w \<le> attempts (snd (get_json_from up url ps max_retry i w)) \<and>
   attempts (snd (get_json_from up url ps max_retry i w)) \<le> attempts w + (max_retry - i) \<and>
   (i < max_retry \<longrightarrow> attempts w < attempts (snd (get_json_from up url ps max_retry i w)))"
proof (induction up url ps max_retry i w rule: get_json_from.induct)
  case (1 up url ps max_retry i w)
  let ?w' = "w\<lparr>attempts := Suc (attempts w), sent := sent w @ [(url, ps)]\<rparr>"
  let ?w'' = "?w'\<lparr>slept := slept ?w' @ [RETRY_DELAY_BASE * (int i + 1)]\<rparr>"
  show ?case
  proof (cases "i < max_retry")
    case False
    then show ?thesis by (simp add: get_json_from_exhausted)
  next
    case True
    show ?thesis
    proof (cases "up (attempts w) url ps")
      case (Returned v)
      then show ?thesis using True by (simp add: get_json_from_returned)
    next
      case Failed
      have eq: "get_json_from up url ps max_retry i w =
                get_json_from up url ps max_retry (Suc i) ?w''"
        using True Failed by (simp add: get_json_from_failed)
      let ?r = "get_json_from up url ps max_retry (Suc i) ?w''"
      from "1.IH"[OF True refl Failed]
      have ih: "sent (snd ?r) = sent ?w'' @ replicate (attempts (snd ?r) - attempts ?w'') (url, ps)"
        "attempts ?w'' \<le> attempts (snd ?r)"
        "attempts (snd ?r) \<le> attempts ?w'' + (max_retry - Suc i)"
        by simp_all
      have "attempts (snd ?r) - attempts w = Suc (attempts (snd ?r) - Suc (attempts w))"
        using ih(2) by simp
      then have "sent (snd ?r) = sent w @ replicate (attempts (snd ?r) - attempts w) (url, ps)"
        using ih(1) by (simp add: replicate_app_Cons_same)
      then show ?thesis
        unfolding eq using ih(2,3) True by simp
    qed
  qed
qed

lemma get_json_tries:
  "sent (snd (get_json up url ps 5 w)) =
     sent w @ replicate (attempts (snd (get_json up url ps 5 w)) - attempts w) (url, ps) \<and>
   1 \<le> attempts (snd (get_json up url ps 5 w)) - attempts w \<and>
   attempts (snd (get_json up url ps 5 w)) - attempts w \<le> 5"
  using get_json_from_sent[of up url ps 5 0 w] unfolding get_json_def by auto

lemma world_at_step:
  "get_json up FARM_TRANS_URL (page_params ps pe page_top (int n * page_top)) 5
     (world_at up ps pe page_top n w) =
   (page_at up ps pe page_top n w, world_at up ps pe page_top (Suc n) w)"
  by (simp add: page_at_def)

lemma tries_bounds: "1 \<le> tries up ps pe page_top n w \<and> tries up ps pe page_top n w \<le> 5"
  unfolding tries_def world_at.simps using get_json_tries by blast

lemma world_at_sent:
  "sent (world_at up ps pe page_top n w) =
     sent w @ concat (map (\<lambda>i. replicate (tries up ps pe page_top i w)
                                  (FARM_TRANS_URL, page_params ps pe page_top (int i * page_top)))
                          [0..<n])"
proof (induction n)
  case 0
  then show ?case by simp
next
  case (Suc n)
  have "sent (world_at up ps pe page_top (Suc n) w) =
        sent (world_at up ps pe page_top n w) @
          replicate (tries up ps pe page_top n w)
            (FARM_TRANS_URL, page_params ps pe page_top (int n * page_top))"
    unfolding tries_def world_at.simps using get_json_tries by blast
  then show ?case using Suc by simp
qed

lemma fetch_loop_full_pages_retried:
  "(\<forall>i<m. full_page page_top (page_at up ps pe page_top (j + i) w)) \<Longrightarrow>
   keep_matching rt (concat (map (\<lambda>i. records_of (page_at up ps pe page_top i w)) [j..<j + m])) acc
     = Inr acc' \<Longrightarrow>
   fetch_loop rt up ps pe page_top (int j * page_top) acc (world_at up ps pe page_top j w) =
     fetch_loop rt up ps pe page_top (int (j + m) * page_top) acc'
       (world_at up ps pe page_top (j + m) w)"
proof (induction m arbitrary: j acc)
  case 0
  then show ?case by simp
next
  case (Suc m)
  have first: "full_page page_top (page_at up ps pe page_top j w)"
    using Suc.prems(1)[rule_format, of 0] by simp
  obtain recs where recs: "page_at up ps pe page_top j w = JList recs" "recs \<noteq> []"
      "page_top \<le> int (length recs)"
    using first by (auto simp: full_page_def split: json.splits)
  have up: "[j..<j + Suc m] = j # [Suc j..<Suc j + m]"
    using upt_conv_Cons[of j "j + Suc m"] by simp
  have cc: "concat (map (\<lambda>i. records_of (page_at up ps pe page_top i w)) [j..<j + Suc m]) =
            recs @ concat (map (\<lambda>i. records_of (page_at up ps pe page_top i w)) [Suc j..<Suc j + m])"
    unfolding up by (simp add: recs(1) records_of_def)
  obtain acc1 where acc1: "keep_matching rt recs acc = Inr acc1"
      "keep_matching rt (concat (map (\<lambda>i. records_of (page_at up ps pe page_top i w))
         [Suc j..<Suc j + m])) acc1 = Inr acc'"
    using Suc.prems(2) unfolding cc keep_matching_append by (auto split: sum.splits)
  have rest: "\<forall>i<m. full_page page_top (page_at up ps pe page_top (Suc j + i) w)"
    using Suc.prems(1) by auto
  have gj: "get_json up FARM_TRANS_URL (page_params ps pe page_top (int j * page_top)) 5
              (world_at up ps pe page_top j w) =
            (JList recs, world_at up ps pe page_top (Suc j) w)"
    unfolding world_at_step recs(1) ..
  have nxt: "int j * page_top + page_top = int (Suc j) * page_top"
    by (simp add: algebra_simps)
  have step: "fetch_loop rt up ps pe page_top (int j * page_top) acc (world_at up ps pe page_top j w) =
        fetch_loop rt up ps pe page_top (int (Suc j) * page_top) acc1
          (world_at up ps pe page_top (Suc j) w)"
    using recs(2,3)
    by (subst fetch_loop.simps) (simp add: gj acc1(1) nxt not_less del: of_nat_Suc world_at.simps)
  show ?case
    unfolding step Suc.IH[OF rest acc1(2)] by simp
qed

lemma fetch_loop_stop:
  assumes "get_json up FARM_TRANS_URL (page_params ps pe page_top skp) 5 w = (v, w')"
    and "\<not> full_page page_top v"
    and "keep_matching rt (records_of v) acc = Inr acc'"
  shows "fetch_loop rt up ps pe page_top skp acc w = Some (Inr acc', w')"
  using assms(2,3)
  by (subst fetch_loop.simps)
     (auto simp: assms(1) full_page_def records_of_def split: json.splits)

lemma fetch_period_block_retried:
  assumes full: "\<forall>i<n. full_page page_top (page_at up ps pe page_top i w)"
    and last: "\<not> full_page page_top (page_at up ps pe page_top n w)"
    and rows: "keep_matching rt
                 (concat (map (\<lambda>i. records_of (page_at up ps pe page_top i w)) [0..<Suc n])) []
               = Inr rows"
  shows "fetch_period_block rt up ps pe page_top w =
           Some (Inr rows, world_at up ps pe page_top (Suc n) w)"
proof -
  obtain acc where acc:
      "keep_matching rt (concat (map (\<lambda>i. records_of (page_at up ps pe page_top i w)) [0..<0 + n])) []
         = Inr acc"
      "keep_matching rt (records_of (page_at up ps pe page_top n w)) acc = Inr rows"
    using rows by (auto simp: keep_matching_append split: sum.splits)
  have full': "\<forall>i<n. full_page page_top (page_at up ps pe page_top (0 + i) w)"
    using full by simp
  have "fetch_loop rt up ps pe page_top (int 0 * page_top) [] (world_at up ps pe page_top 0 w) =
        fetch_loop rt up ps pe page_top (int (0 + n) * page_top) acc
          (world_at up ps pe page_top (0 + n) w)"
    using full' acc(1) by (rule fetch_loop_full_pages_retried)
  moreover have "fetch_loop rt up ps pe page_top (int (0 + n) * page_top) acc
          (world_at up ps pe page_top (0 + n) w) =
        Some (Inr rows, world_at up ps pe page_top (Suc n) w)"
    using last acc(2) by (intro fetch_loop_stop) (simp_all add: world_at_step del: world_at.simps)
  ultimately show ?thesis
    unfolding fetch_period_block_def by simp
qed

lemma fetch_period_block_retried_exhausted:
  assumes full: "\<forall>i<n. full_page page_top (page_at up ps pe page_top i w)"
    and fail: "\<forall>k<5. up (attempts (world_at up ps pe page_top n w) + k) FARM_TRANS_URL
                 (page_params ps pe page_top (int n * page_top)) = Failed"
    and rows: "keep_matching rt
                 (concat (map (\<lambda>i. records_of (page_at up ps pe page_top i w)) [0..<n])) []
               = Inr rows"
  shows "fetch_period_block rt up ps pe page_top w =
     Some (Inr rows,
           (world_at up ps pe page_top n w)
             \<lparr>attempts := attempts (world_at up ps pe page_top n w) + 5,
              sent := sent (world_at up ps pe page_top n w) @
                      replicate 5 (FARM_TRANS_URL, page_params ps pe page_top (int n * page_top)),
              slept := slept (world_at up ps pe page_top n w) @ [1, 2, 3, 4, 5]\<rparr>)"
proof -
  have full': "\<forall>i<n. full_page page_top (page_at up ps pe page_top (0 + i) w)"
    using full by simp
  have rows': "keep_matching rt
      (concat (map (\<lambda>i. records_of (page_at up ps pe page_top i w)) [0..<0 + n])) [] = Inr rows"
    using rows by simp
  have "fetch_loop rt up ps pe page_top (int 0 * page_top) [] (world_at up ps pe page_top 0 w) =
        fetch_loop rt up ps pe page_top (int (0 + n) * page_top) rows
          (world_at up ps pe page_top (0 + n) w)"
    using full' rows' by (rule fetch_loop_full_pages_retried)
  moreover have "fetch_loop rt up ps pe page_top (int (0 + n) * page_top) rows
          (world_at up ps pe page_top (0 + n) w) =
     Some (Inr rows,
           (world_at up ps pe page_top n w)
             \<lparr>attempts := attempts (world_at up ps pe page_top n w) + 5,
              sent := sent (world_at up ps pe page_top n w) @
                      replicate 5 (FARM_TRANS_URL, page_params ps pe page_top (int n * page_top)),
              slept := slept (world_at up ps pe page_top n w) @ [1, 2, 3, 4, 5]\<rparr>)"
    using fail by (simp add: fetch_loop_exhausted del: world_at.simps)
  ultimately show ?thesis
    unfolding fetch_period_block_def by simp
qed

lemma fetch_three_pages_first_try:
  assumes a: "length p1 = 2000 \<and> length p2 = 2000 \<and> length p3 = 500 \<and>
    (\<forall>rec\<in>set (p1 @ p2 @ p3). is_N05 (category_of rec)) \<and>
    up (attempts w) FARM_TRANS_URL (page_params ps pe 2000 0) = Returned (JList (map JDict p1)) \<and>
    up (attempts w + 1) FARM_TRANS_URL (page_params ps pe 2000 2000)
      = Returned (JList (map JDict p2)) \<and>
    up (attempts w + 2) FARM_TRANS_URL (page_params ps pe 2000 4000)
      = Returned (JList (map JDict p3))"
  shows "\<exists>rows'. fetch_period_block rt up ps pe 2000 w =
        Some (Inr rows',
              w\<lparr>attempts := attempts w + 3,
                sent := sent w @ [(FARM_TRANS_URL, page_params ps pe 2000 0),
                                  (FARM_TRANS_URL, page_params ps pe 2000 2000),
                                  (FARM_TRANS_URL, page_params ps pe 2000 4000)]\<rparr>) \<and>
        length rows' = 4500 \<and>
        map Inr rows' = map (normalize_record rt) (p1 @ p2 @ p3)"
proof -
  define pg where "pg = (\<lambda>i::nat. if i = 0 then JList (map JDict p1)
                         else if i = 1 then JList (map JDict p2) else JList (map JDict p3))"
  obtain rows' where rows': "keep_matching rt (map JDict (p1 @ p2 @ p3)) [] = Inr ([] @ rows')"
      "map Inr rows' = map (normalize_record rt) (p1 @ p2 @ p3)"
    using keep_matching_all_N05[of "p1 @ p2 @ p3" rt "[]"] a by blast
  have len: "length rows' = 4500"
    using arg_cong[OF rows'(2), of length] a by simp
  have full: "\<forall>i<2. up (attempts w + i) FARM_TRANS_URL
                (page_params ps pe 2000 (int i * 2000)) = Returned (pg i) \<and>
              full_page 2000 (pg i)"
  proof (intro allI impI)
    fix i :: nat assume "i < 2"
    then consider "i = 0" | "i = 1" by linarith
    then show "up (attempts w + i) FARM_TRANS_URL
                (page_params ps pe 2000 (int i * 2000)) = Returned (pg i) \<and>
              full_page 2000 (pg i)"
      using a by cases (auto simp: pg_def full_page_def)
  qed
  have last: "up (attempts w + 2) FARM_TRANS_URL (page_params ps pe 2000 (int 2 * 2000))
                = Returned (pg 2)" "\<not> full_page 2000 (pg 2)"
    using a by (auto simp: pg_def full_page_def)
  have cc: "concat (map (records_of \<circ> pg) [0..<Suc 2]) = map JDict (p1 @ p2 @ p3)"
    by (simp add: pg_def records_of_def upt_conv_Cons numeral_2_eq_2)
  have "fetch_period_block rt up ps pe 2000 w =
     Some (Inr rows',
           w\<lparr>attempts := attempts w + 2 + 1,
             sent := sent w @ map (\<lambda>i. (FARM_TRANS_URL,
                                        page_params ps pe 2000 (int i * 2000)))
                                [0..<Suc 2]\<rparr>)"
    using full last rows'(1) unfolding cc[symmetric]
    by (intro fetch_period_block_pages[where pg = pg and n = 2]) simp_all
  then have "fetch_period_block rt up ps pe 2000 w =
        Some (Inr rows',
              w\<lparr>attempts := attempts w + 3,
                sent := sent w @ [(FARM_TRANS_URL, page_params ps pe 2000 0),
                                  (FARM_TRANS_URL, page_params ps pe 2000 2000),
                                  (FARM_TRANS_URL, page_params ps pe 2000 4000)]\<rparr>)"
    by (simp add: upt_conv_Cons numeral_2_eq_2)
  then show ?thesis
    using len rows'(2) by blast
qed

lemma fetch_three_pages:
  assumes len: "length p1 = 2000" "length p2 = 2000" "length p3 = 500"
    and cat: "\<forall>rec\<in>set (p1 @ p2 @ p3). is_N05 (category_of rec)"
    and pages: "page_at up ps pe 2000 0 w = JList (map JDict p1)"
      "page_at up ps pe 2000 1 w = JList (map JDict p2)"
      "page_at up ps pe 2000 2 w = JList (map JDict p3)"
  shows "\<exists>rows'. fetch_period_block rt up ps pe 2000 w =
          Some (Inr rows', world_at up ps pe 2000 3 w) \<and>
        length rows' = 4500 \<and>
        map Inr rows' = map (normalize_record rt) (p1 @ p2 @ p3)"
proof -
  obtain rows' where rows': "keep_matching rt (map JDict (p1 @ p2 @ p3)) [] = Inr ([] @ rows')"
      "map Inr rows' = map (normalize_record rt) (p1 @ p2 @ p3)"
    using keep_matching_all_N05[of "p1 @ p2 @ p3" rt "[]"] cat by blast
  have n: "length rows' = 4500"
    using arg_cong[OF rows'(2), of length] len by simp
  have p1': "page_at up ps pe 2000 (Suc 0) w = JList (map JDict p2)"
    using pages(2) by simp
  have p2': "page_at up ps pe 2000 (Suc (Suc 0)) w = JList (map JDict p3)"
    using pages(3) by (simp add: numeral_2_eq_2)
  have full: "\<forall>i<2. full_page 2000 (page_at up ps pe 2000 i w)"
  proof (intro allI impI)
    fix i :: nat assume "i < 2"
    then consider "i = 0" | "i = Suc 0" by linarith
    then show "full_page 2000 (page_at up ps pe 2000 i w)"
      using len pages(1) p1' by cases (auto simp: full_page_def)
  qed
  have last: "\<not> full_page 2000 (page_at up ps pe 2000 2 w)"
    using len pages(3) by (simp add: full_page_def)
  have cc: "concat (map (\<lambda>i. records_of (page_at up ps pe 2000 i w)) [0..<Suc 2]) =
            map JDict (p1 @ p2 @ p3)"
    by (simp add: pages(1) p1' p2' records_of_def upt_conv_Cons numeral_2_eq_2)
  have "fetch_period_block rt up ps pe 2000 w =
          Some (Inr rows', world_at up ps pe 2000 (Suc 2) w)"
    using full last rows'(1) unfolding cc[symmetric]
    by (intro fetch_period_block_retried) simp_all
  moreover have "Suc 2 = 3" by simp
  ultimately have "fetch_period_block rt up ps pe 2000 w =
          Some (Inr rows', world_at up ps pe 2000 3 w)"
    by (simp only:)
  then show ?thesis using n rows'(2) by blast
qed

lemma flaky_page:
  assumes "even (attempts w)" and "up (Suc (attempts w)) url ps = Returned v"
  shows "get_json (flaky up) url ps 5 w =
     (v, w\<lparr>attempts := attempts w + 2, sent := sent w @ [(url, ps), (url, ps)],
           slept := slept w @ [1]\<rparr>)"
  unfolding get_json_def using assms
  by (simp add: get_json_from_failed get_json_from_returned flaky_def RETRY_DELAY_BASE_def)

text \<open>
  C5. For every upstream, whatever retries the pages take: when the fetches of the
  pages \<open>0\<close>, ..., \<open>n - 1\<close> return full pages and the fetch of the page \<open>n\<close> returns a
  response that is not a full page (fewer records than \<open>page_top\<close>, an empty list, or
  no list), the run of the window ends there and not before. Its requests are, in
  order, those of the pages \<open>0\<close>, ..., \<open>n\<close>, the page \<open>i\<close> asked with
  \<open>$skip = i * page_top\<close> one to five times, and its rows are those that the inner loop
  keeps from the records of the pages, concatenated in page order. When the pages are
  answered at the first attempt, there is one request for each. When two pages of 2000
  records and then a page of 500 records come back, all of category N05, the result has
  4500 rows: the normalized records, in the order of the upstream.
\<close>

theorem fetch_period_block_paging:
  "((\<forall>i<n. full_page page_top (page_at up ps pe page_top i w)) \<and>
    \<not> full_page page_top (page_at up ps pe page_top n w) \<and>
    keep_matching rt
      (concat (map (\<lambda>i. records_of (page_at up ps pe page_top i w)) [0..<Suc n])) []
      = Inr rows \<longrightarrow>
    fetch_period_block rt up ps pe page_top w =
      Some (Inr rows, world_at up ps pe page_top (Suc n) w) \<and>
    sent (world_at up ps pe page_top (Suc n) w) =
      sent w @ concat (map (\<lambda>i. replicate (tries up ps pe page_top i w)
                                   (FARM_TRANS_URL, page_params ps pe page_top (int i * page_top)))
                           [0..<Suc n]) \<and>
    (\<forall>i. 1 \<le> tries up ps pe page_top i w \<and> tries up ps pe page_top i w \<le> 5)) \<and>
   ((\<forall>i<n. up (attempts w + i) FARM_TRANS_URL
             (page_params ps pe page_top (int i * page_top)) = Returned (pg i) \<and>
           full_page page_top (pg i)) \<and>
    up (attempts w + n) FARM_TRANS_URL
      (page_params ps pe page_top (int n * page_top)) = Returned (pg n) \<and>
    \<not> full_page page_top (pg n) \<and>
    keep_matching rt (concat (map (records_of \<circ> pg) [0..<Suc n])) [] = Inr rows \<longrightarrow>
    fetch_period_block rt up ps pe page_top w =
      Some (Inr rows,
            w\<lparr>attempts := attempts w + n + 1,
              sent := sent w @ map (\<lambda>i. (FARM_TRANS_URL,
                                         page_params ps pe page_top (int i * page_top)))
                                 [0..<Suc n]\<rparr>)) \<and>
   (length p1 = 2000 \<and> length p2 = 2000 \<and> length p3 = 500 \<and>
    (\<forall>rec\<in>set (p1 @ p2 @ p3). is_N05 (category_of rec)) \<and>
    page_at up ps pe 2000 0 w = JList (map JDict p1) \<and>
    page_at up ps pe 2000 1 w = JList (map JDict p2) \<and>
    page_at up ps pe 2000 2 w = JList (map JDict p3) \<longrightarrow>
    (\<exists>rows'. fetch_period_block rt up ps pe 2000 w =
        Some (Inr rows', world_at up ps pe 2000 3 w) \<and>
        length rows' = 4500 \<and>
        map Inr rows' = map (normalize_record rt) (p1 @ p2 @ p3))) \<and>
   (length p1 = 2000 \<and> length p2 = 2000 \<and> length p3 = 500 \<and>
    (\<forall>rec\<in>set (p1 @ p2 @ p3). is_N05 (category_of rec)) \<and>
    up (attempts w) FARM_TRANS_URL (page_params ps pe 2000 0) = Returned (JList (map JDict p1)) \<and>
    up (attempts w + 1) FARM_TRANS_URL (page_params ps pe 2000 2000)
      = Returned (JList (map JDict p2)) \<and>
    up (attempts w + 2) FARM_TRANS_URL (page_params ps pe 2000 4000)
      = Returned (JList (map JDict p3)) \<longrightarrow>
    (\<exists>rows'. fetch_period_block rt up ps pe 2000 w =
        Some (Inr rows',
              w\<lparr>attempts := attempts w + 3,
                sent := sent w @ [(FARM_TRANS_URL, page_params ps pe 2000 0),
                                  (FARM_TRANS_URL, page_params ps pe 2000 2000),
                                  (FARM_TRANS_URL, page_params ps pe 2000 4000)]\<rparr>) \<and>
        length rows' = 4500 \<and>
        map Inr rows' = map (normalize_record rt) (p1 @ p2 @ p3)))"
proof -
  have general: "(\<forall>i<n. full_page page_top (page_at up ps pe page_top i w)) \<and>
    \<not> full_page page_top (page_at up ps pe page_top n w) \<and>
    keep_matching rt
      (concat (map (\<lambda>i. records_of (page_at up ps pe page_top i w)) [0..<Suc n])) []
      = Inr rows \<longrightarrow>
    fetch_period_block rt up ps pe page_top w =
      Some (Inr rows, world_at up ps pe page_top (Suc n) w) \<and>
    sent (world_at up ps pe page_top (Suc n) w) =
      sent w @ concat (map (\<lambda>i. replicate (tries up ps pe page_top i w)
                                   (FARM_TRANS_URL, page_params ps pe page_top (int i * page_top)))
                           [0..<Suc n]) \<and>
    (\<forall>i. 1 \<le> tries up ps pe page_top i w \<and> tries up ps pe page_top i w \<le> 5)"
  proof (intro impI conjI allI)
    assume a: "(\<forall>i<n. full_page page_top (page_at up ps pe page_top i w)) \<and>
      \<not> full_page page_top (page_at up ps pe page_top n w) \<and>
      keep_matching rt
        (concat (map (\<lambda>i. records_of (page_at up ps pe page_top i w)) [0..<Suc n])) []
        = Inr rows"
    show "fetch_period_block rt up ps pe page_top w =
      Some (Inr rows, world_at up ps pe page_top (Suc n) w)"
      using a by (intro fetch_period_block_retried) blast+
  next
    show "sent (world_at up ps pe page_top (Suc n) w) =
      sent w @ concat (map (\<lambda>i. replicate (tries up ps pe page_top i w)
                                   (FARM_TRANS_URL, page_params ps pe page_top (int i * page_top)))
                           [0..<Suc n])"
      by (rule world_at_sent)
  next
    fix i show "1 \<le> tries up ps pe page_top i w" using tries_bounds by blast
  next
    fix i show "tries up ps pe page_top i w \<le> 5" using tries_bounds by blast
  qed
  have first_try: "(\<forall>i<n. up (attempts w + i) FARM_TRANS_URL
             (page_params ps pe page_top (int i * page_top)) = Returned (pg i) \<and>
           full_page page_top (pg i)) \<and>
    up (attempts w + n) FARM_TRANS_URL
      (page_params ps pe page_top (int n * page_top)) = Returned (pg n) \<and>
    \<not> full_page page_top (pg n) \<and>
    keep_matching rt (concat (map (records_of \<circ> pg) [0..<Suc n])) [] = Inr rows \<longrightarrow>
    fetch_period_block rt up ps pe page_top w =
      Some (Inr rows,
            w\<lparr>attempts := attempts w + n + 1,
              sent := sent w @ map (\<lambda>i. (FARM_TRANS_URL,
                                         page_params ps pe page_top (int i * page_top)))
                                 [0..<Suc n]\<rparr>)"
  proof
    assume a: "(\<forall>i<n. up (attempts w + i) FARM_TRANS_URL
             (page_params ps pe page_top (int i * page_top)) = Returned (pg i) \<and>
           full_page page_top (pg i)) \<and>
      up (attempts w + n) FARM_TRANS_URL
        (page_params ps pe page_top (int n * page_top)) = Returned (pg n) \<and>
      \<not> full_page page_top (pg n) \<and>
      keep_matching rt (concat (map (records_of \<circ> pg) [0..<Suc n])) [] = Inr rows"
    show "fetch_period_block rt up ps pe page_top w =
      Some (Inr rows,
            w\<lparr>attempts := attempts w + n + 1,
              sent := sent w @ map (\<lambda>i. (FARM_TRANS_URL,
                                         page_params ps pe page_top (int i * page_top)))
                                 [0..<Suc n]\<rparr>)"
      using a by (intro fetch_period_block_pages[where pg = pg]) blast+
  qed
  have scenario: "length p1 = 2000 \<and> length p2 = 2000 \<and> length p3 = 500 \<and>
    (\<forall>rec\<in>set (p1 @ p2 @ p3). is_N05 (category_of rec)) \<and>
    page_at up ps pe 2000 0 w = JList (map JDict p1) \<and>
    page_at up ps pe 2000 1 w = JList (map JDict p2) \<and>
    page_at up ps pe 2000 2 w = JList (map JDict p3) \<longrightarrow>
    (\<exists>rows'. fetch_period_block rt up ps pe 2000 w =
        Some (Inr rows', world_at up ps pe 2000 3 w) \<and>
        length rows' = 4500 \<and>
        map Inr rows' = map (normalize_record rt) (p1 @ p2 @ p3))"
    using fetch_three_pages[of p1 p2 p3 up ps pe w rt] by blast
  have scenario_first_try: "length p1 = 2000 \<and> length p2 = 2000 \<and> length p3 = 500 \<and>
    (\<forall>rec\<in>set (p1 @ p2 @ p3). is_N05 (category_of rec)) \<and>
    up (attempts w) FARM_TRANS_URL (page_params ps pe 2000 0) = Returned (JList (map JDict p1)) \<and>
    up (attempts w + 1) FARM_TRANS_URL (page_params ps pe 2000 2000)
      = Returned (JList (map JDict p2)) \<and>
    up (attempts w + 2) FARM_TRANS_URL (page_params ps pe 2000 4000)
      = Returned (JList (map JDict p3)) \<longrightarrow>
    (\<exists>rows'. fetch_period_block rt up ps pe 2000 w =
        Some (Inr rows',
              w\<lparr>attempts := attempts w + 3,
                sent := sent w @ [(FARM_TRANS_URL, page_params ps pe 2000 0),
                                  (FARM_TRANS_URL, page_params ps pe 2000 2000),
                                  (FARM_TRANS_URL, page_params ps pe 2000 4000)]\<rparr>) \<and>
        length rows' = 4500 \<and>
        map Inr rows' = map (normalize_record rt) (p1 @ p2 @ p3))"
    using fetch_three_pages_first_try[of p1 p2 p3 up w ps pe rt] by (intro impI)
  show ?thesis
    by (rule conjI[OF general conjI[OF first_try conjI[OF scenario scenario_first_try]]])
qed

theorem fetch_period_block_paging_witness:
  "\<exists>rows'. fetch_period_block sample_runtime (flaky three_pages) sample_day sample_day 2000
             initial_world =
        Some (Inr rows',
              world_at (flaky three_pages) sample_day sample_day 2000 3 initial_world) \<and>
        length rows' = 4500 \<and>
        map Inr rows' = map (normalize_record sample_runtime)
          (replicate 2000 sample_record @ replicate 2000 sample_record @
           replicate 500 sample_record) \<and>
        attempts (world_at (flaky three_pages) sample_day sample_day 2000 3 initial_world) = 6 \<and>
        slept (world_at (flaky three_pages) sample_day sample_day 2000 3 initial_world) = [1, 1, 1] \<and>
        map (skip \<circ> snd)
          (sent (world_at (flaky three_pages) sample_day sample_day 2000 3 initial_world)) =
          [0, 0, 2000, 2000, 4000, 4000]"
proof -
  let ?up = "flaky three_pages"
  let ?prm = "page_params sample_day sample_day 2000"
  let ?big = "JList (map JDict (replicate 2000 sample_record))"
  let ?small = "JList (map JDict (replicate 500 sample_record))"
  have cat: "is_N05 (category_of sample_record)"
    by (simp add: is_N05_def category_of_def dict_get_def sample_record_def strip_def
        unicode_isspace_def ascii_def)
  let ?s0 = "[(FARM_TRANS_URL, ?prm 0), (FARM_TRANS_URL, ?prm 0)]"
  let ?s1 = "[(FARM_TRANS_URL, ?prm 0), (FARM_TRANS_URL, ?prm 0),
              (FARM_TRANS_URL, ?prm 2000), (FARM_TRANS_URL, ?prm 2000)]"
  let ?s2 = "[(FARM_TRANS_URL, ?prm 0), (FARM_TRANS_URL, ?prm 0),
              (FARM_TRANS_URL, ?prm 2000), (FARM_TRANS_URL, ?prm 2000),
              (FARM_TRANS_URL, ?prm 4000), (FARM_TRANS_URL, ?prm 4000)]"
  let ?w1 = "\<lparr>attempts = 2, sent = ?s0, slept = [1]\<rparr>"
  let ?w2 = "\<lparr>attempts = 4, sent = ?s1, slept = [1, 1]\<rparr>"
  let ?w3 = "\<lparr>attempts = 6, sent = ?s2, slept = [1, 1, 1]\<rparr>"
  have g0: "get_json ?up FARM_TRANS_URL (?prm 0) 5 initial_world = (?big, ?w1)"
    by (subst flaky_page[where v = ?big])
       (simp_all add: initial_world_def three_pages_def page_params_def)
  have g1: "get_json ?up FARM_TRANS_URL (?prm 2000) 5 ?w1 = (?big, ?w2)"
    by (subst flaky_page[where v = ?big])
       (simp_all add: three_pages_def page_params_def)
  have g2: "get_json ?up FARM_TRANS_URL (?prm 4000) 5 ?w2 = (?small, ?w3)"
    by (subst flaky_page[where v = ?small])
       (simp_all add: three_pages_def page_params_def)
  have w1: "world_at ?up sample_day sample_day 2000 (Suc 0) initial_world = ?w1"
    by (simp add: g0)
  have w2: "world_at ?up sample_day sample_day 2000 (Suc (Suc 0)) initial_world = ?w2"
    unfolding world_at.simps(2)[of _ _ _ _ "Suc 0"] w1 by (simp add: g1)
  have w3: "world_at ?up sample_day sample_day 2000 3 initial_world = ?w3"
    unfolding numeral_3_eq_3 world_at.simps(2)[of _ _ _ _ "Suc (Suc 0)"] w2 by (simp add: g2)
  have p0: "page_at ?up sample_day sample_day 2000 0 initial_world = ?big"
    unfolding page_at_def by (simp add: g0)
  have p1: "page_at ?up sample_day sample_day 2000 1 initial_world = ?big"
    unfolding page_at_def One_nat_def w1 by (simp add: g1)
  have p2: "page_at ?up sample_day sample_day 2000 2 initial_world = ?small"
    unfolding page_at_def numeral_2_eq_2 w2 by (simp add: g2)
  have hyp: "length (replicate 2000 sample_record) = 2000 \<and>
    length (replicate 2000 sample_record) = 2000 \<and>
    length (replicate 500 sample_record) = 500 \<and>
    (\<forall>rec\<in>set (replicate 2000 sample_record @ replicate 2000 sample_record @
                replicate 500 sample_record). is_N05 (category_of rec)) \<and>
    page_at ?up sample_day sample_day 2000 0 initial_world = ?big \<and>
    page_at ?up sample_day sample_day 2000 1 initial_world = ?big \<and>
    page_at ?up sample_day sample_day 2000 2 initial_world = ?small"
    using cat p0 p1 p2 by simp
  have eff: "attempts (world_at ?up sample_day sample_day 2000 3 initial_world) = 6"
    "slept (world_at ?up sample_day sample_day 2000 3 initial_world) = [1, 1, 1]"
    "map (skip \<circ> snd) (sent (world_at ?up sample_day sample_day 2000 3 initial_world)) =
       [0, 0, 2000, 2000, 4000, 4000]"
    unfolding w3 by (simp_all add: page_params_def)
  obtain rows' where rows':
      "fetch_period_block sample_runtime ?up sample_day sample_day 2000 initial_world =
         Some (Inr rows', world_at ?up sample_day sample_day 2000 3 initial_world)"
      "length rows' = 4500"
      "map Inr rows' = map (normalize_record sample_runtime)
          (replicate 2000 sample_record @ replicate 2000 sample_record @
           replicate 500 sample_record)"
    using fetch_period_block_paging[where up = ?up and w = initial_world
        and ps = sample_day and pe = sample_day and rt = sample_runtime
        and ?p1.0 = "replicate 2000 sample_record" and ?p2.0 = "replicate 2000 sample_record"
        and ?p3.0 = "replicate 500 sample_record",
        THEN conjunct2, THEN conjunct2, THEN conjunct1, rule_format, OF hyp]
    by (elim exE conjE)
  show ?thesis
    by (rule exI[of _ rows'], intro conjI) (rule rows' eff)+
qed

text \<open>
  C7. For every upstream, whatever retries the earlier pages took: when the fetches of
  the pages \<open>0\<close>, ..., \<open>n - 1\<close> returned full pages and the five attempts for the page \<open>n\<close>
  all fail, the run of the window ends without an exception, after the sleeps
  1, 2, 3, 4, 5: it returns the rows kept from the \<open>n\<close> earlier pages, and the empty
  list when it is the first page that fails.
\<close>

theorem fetch_period_block_retries_exhausted:
  "((\<forall>i<n. full_page page_top (page_at up ps pe page_top i w)) \<and>
    (\<forall>k<5. up (attempts (world_at up ps pe page_top n w) + k) FARM_TRANS_URL
             (page_params ps pe page_top (int n * page_top)) = Failed) \<and>
    keep_matching rt
      (concat (map (\<lambda>i. records_of (page_at up ps pe page_top i w)) [0..<n])) [] = Inr rows \<longrightarrow>
    fetch_period_block rt up ps pe page_top w =
      Some (Inr rows,
            (world_at up ps pe page_top n w)
              \<lparr>attempts := attempts (world_at up ps pe page_top n w) + 5,
               sent := sent (world_at up ps pe page_top n w) @
                       replicate 5 (FARM_TRANS_URL,
                                    page_params ps pe page_top (int n * page_top)),
               slept := slept (world_at up ps pe page_top n w) @ [1, 2, 3, 4, 5]\<rparr>)) \<and>
   ((\<forall>i<n. up (attempts w + i) FARM_TRANS_URL
             (page_params ps pe page_top (int i * page_top)) = Returned (pg i) \<and>
           full_page page_top (pg i)) \<and>
    (\<forall>k<5. up (attempts w + n + k) FARM_TRANS_URL
             (page_params ps pe page_top (int n * page_top)) = Failed) \<and>
    keep_matching rt (concat (map (records_of \<circ> pg) [0..<n])) [] = Inr rows \<longrightarrow>
    fetch_period_block rt up ps pe page_top w =
      Some (Inr rows,
            w\<lparr>attempts := attempts w + n + 5,
              sent := sent w @ map (\<lambda>i. (FARM_TRANS_URL,
                                         page_params ps pe page_top (int i * page_top)))
                                 [0..<n] @
                      replicate 5 (FARM_TRANS_URL,
                                   page_params ps pe page_top (int n * page_top)),
              slept := slept w @ [1, 2, 3, 4, 5]\<rparr>)) \<and>
   ((\<forall>k<5. up (attempts w + k) FARM_TRANS_URL (page_params ps pe page_top 0) = Failed) \<longrightarrow>
    fetch_period_block rt up ps pe page_top w =
      Some (Inr [],
            w\<lparr>attempts := attempts w + 5,
              sent := sent w @ replicate 5 (FARM_TRANS_URL, page_params ps pe page_top 0),
              slept := slept w @ [1, 2, 3, 4, 5]\<rparr>))"
proof -
  have general: "(\<forall>i<n. full_page page_top (page_at up ps pe page_top i w)) \<and>
    (\<forall>k<5. up (attempts (world_at up ps pe page_top n w) + k) FARM_TRANS_URL
             (page_params ps pe page_top (int n * page_top)) = Failed) \<and>
    keep_matching rt
      (concat (map (\<lambda>i. records_of (page_at up ps pe page_top i w)) [0..<n])) [] = Inr rows \<longrightarrow>
    fetch_period_block rt up ps pe page_top w =
      Some (Inr rows,
            (world_at up ps pe page_top n w)
              \<lparr>attempts := attempts (world_at up ps pe page_top n w) + 5,
               sent := sent (world_at up ps pe page_top n w) @
                       replicate 5 (FARM_TRANS_URL,
                                    page_params ps pe page_top (int n * page_top)),
               slept := slept (world_at up ps pe page_top n w) @ [1, 2, 3, 4, 5]\<rparr>)"
    using fetch_period_block_retried_exhausted[of n page_top up ps pe w rt rows] by (intro impI) blast
  have first_try: "(\<forall>i<n. up (attempts w + i) FARM_TRANS_URL
             (page_params ps pe page_top (int i * page_top)) = Returned (pg i) \<and>
           full_page page_top (pg i)) \<and>
    (\<forall>k<5. up (attempts w + n + k) FARM_TRANS_URL
             (page_params ps pe page_top (int n * page_top)) = Failed) \<and>
    keep_matching rt (concat (map (records_of \<circ> pg) [0..<n])) [] = Inr rows \<longrightarrow>
    fetch_period_block rt up ps pe page_top w =
      Some (Inr rows,
            w\<lparr>attempts := attempts w + n + 5,
              sent := sent w @ map (\<lambda>i. (FARM_TRANS_URL,
                                         page_params ps pe page_top (int i * page_top)))
                                 [0..<n] @
                      replicate 5 (FARM_TRANS_URL,
                                   page_params ps pe page_top (int n * page_top)),
              slept := slept w @ [1, 2, 3, 4, 5]\<rparr>)"
    using fetch_period_block_pages_exhausted[where pg = pg and n = n and up = up and w = w
        and ps = ps and pe = pe and page_top = page_top and rt = rt and rows = rows]
    by (intro impI) blast
  have first_page: "(\<forall>k<5. up (attempts w + k) FARM_TRANS_URL
                       (page_params ps pe page_top 0) = Failed) \<longrightarrow>
    fetch_period_block rt up ps pe page_top w =
      Some (Inr [],
            w\<lparr>attempts := attempts w + 5,
              sent := sent w @ replicate 5 (FARM_TRANS_URL, page_params ps pe page_top 0),
              slept := slept w @ [1, 2, 3, 4, 5]\<rparr>)"
    using fetch_period_block_pages_exhausted[where n = 0 and pg = "\<lambda>i. JNull" and rows = "[]"
        and up = up and w = w and ps = ps and pe = pe and page_top = page_top and rt = rt]
    by simp
  show ?thesis
    by (rule conjI[OF general conjI[OF first_try first_page]])
qed

theorem fetch_period_block_retries_exhausted_witness:
  "\<exists>rows. fetch_period_block sample_runtime (flaky one_page_then_down) sample_day sample_day 2
            initial_world =
      Some (Inr rows,
            \<lparr>attempts = 7,
             sent = replicate 2 (FARM_TRANS_URL, page_params sample_day sample_day 2 0) @
                    replicate 5 (FARM_TRANS_URL, page_params sample_day sample_day 2 2),
             slept = [1, 1, 2, 3, 4, 5]\<rparr>) \<and>
      map Inr rows = map (normalize_record sample_runtime) [sample_record, sample_record]"
proof -
  let ?up = "flaky one_page_then_down"
  let ?prm = "page_params sample_day sample_day 2"
  let ?page = "JList (map JDict [sample_record, sample_record])"
  let ?w1 = "\<lparr>attempts = 2, sent = [(FARM_TRANS_URL, ?prm 0), (FARM_TRANS_URL, ?prm 0)],
              slept = [1]\<rparr>"
  have cat: "is_N05 (category_of sample_record)"
    by (simp add: is_N05_def category_of_def dict_get_def sample_record_def strip_def
        unicode_isspace_def ascii_def)
  obtain rows where rows:
      "keep_matching sample_runtime (map JDict [sample_record, sample_record]) [] = Inr ([] @ rows)"
      "map Inr rows = map (normalize_record sample_runtime) [sample_record, sample_record]"
    using keep_matching_all_N05[of "[sample_record, sample_record]" sample_runtime "[]"] cat
    by auto
  have g0: "get_json ?up FARM_TRANS_URL (?prm 0) 5 initial_world = (?page, ?w1)"
    by (subst flaky_page[where v = ?page])
       (simp_all add: initial_world_def one_page_then_down_def page_params_def)
  have w1: "world_at ?up sample_day sample_day 2 (Suc 0) initial_world = ?w1"
    by (simp add: g0)
  have p0: "page_at ?up sample_day sample_day 2 0 initial_world = ?page"
    unfolding page_at_def by (simp add: g0)
  have full: "\<forall>i<Suc 0. full_page 2 (page_at ?up sample_day sample_day 2 i initial_world)"
    using p0 by (simp add: full_page_def)
  have fail: "\<forall>k<5. ?up (attempts (world_at ?up sample_day sample_day 2 (Suc 0) initial_world) + k)
                FARM_TRANS_URL (?prm (int (Suc 0) * 2)) = Failed"
    unfolding w1 by (simp add: flaky_def one_page_then_down_def page_params_def)
  have kept: "keep_matching sample_runtime
      (concat (map (\<lambda>i. records_of (page_at ?up sample_day sample_day 2 i initial_world))
         [0..<Suc 0])) [] = Inr rows"
    using rows(1) p0 by (simp add: records_of_def)
  have hyp: "(\<forall>i<Suc 0. full_page 2 (page_at ?up sample_day sample_day 2 i initial_world)) \<and>
    (\<forall>k<5. ?up (attempts (world_at ?up sample_day sample_day 2 (Suc 0) initial_world) + k)
                FARM_TRANS_URL (?prm (int (Suc 0) * 2)) = Failed) \<and>
    keep_matching sample_runtime
      (concat (map (\<lambda>i. records_of (page_at ?up sample_day sample_day 2 i initial_world))
         [0..<Suc 0])) [] = Inr rows"
    using full fail kept by (intro conjI)
  have run: "fetch_period_block sample_runtime ?up sample_day sample_day 2 initial_world =
      Some (Inr rows,
            (world_at ?up sample_day sample_day 2 (Suc 0) initial_world)
              \<lparr>attempts := attempts (world_at ?up sample_day sample_day 2 (Suc 0) initial_world) + 5,
               sent := sent (world_at ?up sample_day sample_day 2 (Suc 0) initial_world) @
                       replicate 5 (FARM_TRANS_URL, ?prm (int (Suc 0) * 2)),
               slept := slept (world_at ?up sample_day sample_day 2 (Suc 0) initial_world) @
                        [1, 2, 3, 4, 5]\<rparr>)"
    using fetch_period_block_retries_exhausted[where up = ?up and w = initial_world
        and ps = sample_day and pe = sample_day and rt = sample_runtime
        and n = "Suc 0" and page_top = 2 and rows = rows,
        THEN conjunct1, rule_format, OF hyp] .
  have "fetch_period_block sample_runtime ?up sample_day sample_day 2 initial_world =
      Some (Inr rows,
            \<lparr>attempts = 7,
             sent = replicate 2 (FARM_TRANS_URL, ?prm 0) @ replicate 5 (FARM_TRANS_URL, ?prm 2),
             slept = [1, 1, 2, 3, 4, 5]\<rparr>)"
    unfolding run w1 by (simp add: numeral_2_eq_2)
  then show ?thesis using rows(2) by (intro exI[of _ rows] conjI)
qed

end
